theory Spec2Isabelle
  imports Complex_Main
begin

section \<open>Python values of the Discord connector\<close>

text \<open>
  The enumeration \<open>events\<close> of \<^verbatim>\<open>src/arcbot/Discord.py\<close> (lines 374-407), member by member and
  in the order of the source. The sixth member is spelled \<open>CHANNEL_PINS_UPATE\<close> there.
\<close>

datatype events =
    READY | RESUMED | CHANNEL_CREATE | CHANNEL_UPDATE | CHANNEL_DELETE | CHANNEL_PINS_UPATE
  | GUILD_CREATE | GUILD_UPDATE | GUILD_DELETE | GUILD_BAN_ADD | GUILD_BAN_REMOVE
  | GUILD_EMOJIS_UPDATE | GUILD_INTEGRATIONS_UPDATE | GUILD_MEMBER_ADD | GUILD_MEMBER_REMOVE
  | GUILD_MEMBER_UPDATE | GUILD_MEMBERS_CHUNK | GUILD_ROLE_CREATE | GUILD_ROLE_UPDATE
  | GUILD_ROLE_DELETE | MESSAGE_CREATE | MESSAGE_UPDATE | MESSAGE_DELETE | MESSAGE_DELETE_BULK
  | MESSAGE_REACTION_ADD | MESSAGE_REACTION_REMOVE | MESSAGE_REACTION_REMOVE_ALL
  | PRESENCE_UPDATE | TYPING_START | USER_UPDATE | VOICE_STATE_UPDATE | VOICE_SERVER_UPDATE
  | WEBHOOKS_UPDATE

text \<open>The members of \<open>events\<close> by name, as \<^verbatim>\<open>events.__members__\<close> holds them.\<close>

definition events_members :: "(string \<times> events) list" where
  "events_members =
    [(''READY'', READY), (''RESUMED'', RESUMED), (''CHANNEL_CREATE'', CHANNEL_CREATE),
     (''CHANNEL_UPDATE'', CHANNEL_UPDATE), (''CHANNEL_DELETE'', CHANNEL_DELETE),
     (''CHANNEL_PINS_UPATE'', CHANNEL_PINS_UPATE), (''GUILD_CREATE'', GUILD_CREATE),
     (''GUILD_UPDATE'', GUILD_UPDATE), (''GUILD_DELETE'', GUILD_DELETE),
     (''GUILD_BAN_ADD'', GUILD_BAN_ADD), (''GUILD_BAN_REMOVE'', GUILD_BAN_REMOVE),
     (''GUILD_EMOJIS_UPDATE'', GUILD_EMOJIS_UPDATE),
     (''GUILD_INTEGRATIONS_UPDATE'', GUILD_INTEGRATIONS_UPDATE),
     (''GUILD_MEMBER_ADD'', GUILD_MEMBER_ADD), (''GUILD_MEMBER_REMOVE'', GUILD_MEMBER_REMOVE),
     (''GUILD_MEMBER_UPDATE'', GUILD_MEMBER_UPDATE), (''GUILD_MEMBERS_CHUNK'', GUILD_MEMBERS_CHUNK),
     (''GUILD_ROLE_CREATE'', GUILD_ROLE_CREATE), (''GUILD_ROLE_UPDATE'', GUILD_ROLE_UPDATE),
     (''GUILD_ROLE_DELETE'', GUILD_ROLE_DELETE), (''MESSAGE_CREATE'', MESSAGE_CREATE),
     (''MESSAGE_UPDATE'', MESSAGE_UPDATE), (''MESSAGE_DELETE'', MESSAGE_DELETE),
     (''MESSAGE_DELETE_BULK'', MESSAGE_DELETE_BULK), (''MESSAGE_REACTION_ADD'', MESSAGE_REACTION_ADD),
     (''MESSAGE_REACTION_REMOVE'', MESSAGE_REACTION_REMOVE),
     (''MESSAGE_REACTION_REMOVE_ALL'', MESSAGE_REACTION_REMOVE_ALL),
     (''PRESENCE_UPDATE'', PRESENCE_UPDATE), (''TYPING_START'', TYPING_START),
     (''USER_UPDATE'', USER_UPDATE), (''VOICE_STATE_UPDATE'', VOICE_STATE_UPDATE),
     (''VOICE_SERVER_UPDATE'', VOICE_SERVER_UPDATE), (''WEBHOOKS_UPDATE'', WEBHOOKS_UPDATE)]"

text \<open>
  The values the connector handles. \<open>PNone\<close>, \<open>PBool\<close>, \<open>PInt\<close>, \<open>PStr\<close>, \<open>PList\<close> and
  \<open>PDict\<close> are what \<^verbatim>\<open>json.loads\<close> produces for a gateway frame (a dictionary is the list of
  its items in insertion order, its keys strings). \<open>PObj\<close> is a class made by
  \<^verbatim>\<open>type('Event', (), attrs)\<close>, given by the entries of its namespace; \<open>PEnum\<close> is a member
  of \<open>events\<close>; \<open>PRef\<close> is a reference to a list object of callbacks in the store, which
  is how a subscriber list is shared between the registry and the events decoded from
  it; \<open>PBuiltin\<close> is an object that the interpreter supplies (a method, a descriptor, a
  mapping proxy), known by a name only.
\<close>

type_synonym addr = nat

datatype pyval =
    PNone
  | PBool bool
  | PInt int
  | PStr string
  | PList "pyval list"
  | PDict "(string \<times> pyval) list"
  | PObj "(string \<times> pyval) list"
  | PEnum events
  | PRef addr
  | PBuiltin string

datatype error =
    KeyError string
  | AttributeError string
  | TypeError
  | ValueError
  | SSLError int
  | socket_error int

subsection \<open>Names that Python's classes reserve\<close>

text \<open>
  A double-underscore name: it starts and ends with two underscores. Python's \<^verbatim>\<open>type\<close> and
  \<^verbatim>\<open>object\<close> give such names a meaning of their own (\<^verbatim>\<open>__qualname__\<close>, \<^verbatim>\<open>__slots__\<close>,
  \<^verbatim>\<open>__name__\<close>, \<^verbatim>\<open>__doc__\<close>, ...); no other key is treated specially in a class namespace.
\<close>

definition dunder :: "string \<Rightarrow> bool" where
  "dunder name = (take 2 name = ''__'' \<and> take 2 (rev name) = ''__'')"

fun any_dunder :: "(string \<times> 'a) list \<Rightarrow> bool" where
  "any_dunder [] = False"
| "any_dunder ((k, v) # kvs) = (dunder k \<or> any_dunder kvs)"

text \<open>
  What the interpreter does where this development does not follow it: the class that
  \<^verbatim>\<open>type\<close> builds from a namespace with double-underscore keys it accepts, the value read
  under a reserved name of a class, an attribute of the class \<open>events\<close> that is not a
  member, an attribute of a value that is not a class made here, and whether an object
  of the interpreter can be hashed. They are fixed by Python and nothing is assumed
  about them; no example below evaluates them.
\<close>

definition type_reserved :: "(string \<times> pyval) list \<Rightarrow> error + pyval" where
  "type_reserved = undefined"

definition class_attr_reserved :: "(string \<times> pyval) list \<Rightarrow> string \<Rightarrow> error + pyval" where
  "class_attr_reserved = undefined"

definition events_class_attr :: "string \<Rightarrow> error + pyval" where
  "events_class_attr = undefined"

definition value_attr :: "pyval \<Rightarrow> string \<Rightarrow> error + pyval" where
  "value_attr = undefined"

definition builtin_hashable :: "string \<Rightarrow> bool" where
  "builtin_hashable = undefined"

text \<open>
  \<^verbatim>\<open>type('Event', (), namespace)\<close>. A namespace without double-underscore keys becomes a
  class with exactly these entries. Among the double-underscore keys, \<^verbatim>\<open>__slots__\<close> is
  read first and must be a string or a list (anything else is not iterable:
  \<^verbatim>\<open>TypeError\<close>), then \<^verbatim>\<open>__qualname__\<close> must be a string and \<^verbatim>\<open>__classcell__\<close> a cell, which no
  value of a frame is (\<^verbatim>\<open>TypeError\<close>). What \<^verbatim>\<open>type\<close> makes of the namespaces it accepts is
  \<open>type_reserved\<close>.
\<close>

definition type_Event :: "(string \<times> pyval) list \<Rightarrow> error + pyval" where
  "type_Event namespace =
     (if \<not> any_dunder namespace then Inr (PObj namespace)
      else case map_of namespace ''__slots__'' of
             Some (PStr s) \<Rightarrow> type_reserved namespace
           | Some (PList xs) \<Rightarrow> type_reserved namespace
           | Some v \<Rightarrow> Inl TypeError
           | None \<Rightarrow>
               (case map_of namespace ''__qualname__'' of
                  Some (PStr q) \<Rightarrow> type_reserved namespace
                | Some v \<Rightarrow> Inl TypeError
                | None \<Rightarrow>
                    (case map_of namespace ''__classcell__'' of
                       Some v \<Rightarrow> Inl TypeError
                     | None \<Rightarrow> type_reserved namespace)))"

subsection \<open>\<open>event.to_object\<close>\<close>

text \<open>
  Results of the elements of a list or of the items of a dictionary, in order: the first
  error is the one raised.
\<close>

fun collect :: "(error + 'a) list \<Rightarrow> error + 'a list" where
  "collect [] = Inr []"
| "collect (r # rs) =
     (case r of Inl e \<Rightarrow> Inl e
      | Inr x \<Rightarrow> (case collect rs of Inl e \<Rightarrow> Inl e | Inr xs \<Rightarrow> Inr (x # xs)))"

fun collect_items :: "(string \<times> (error + 'a)) list \<Rightarrow> error + (string \<times> 'a) list" where
  "collect_items [] = Inr []"
| "collect_items ((k, r) # rs) =
     (case r of Inl e \<Rightarrow> Inl e
      | Inr x \<Rightarrow> (case collect_items rs of Inl e \<Rightarrow> Inl e | Inr xs \<Rightarrow> Inr ((k, x) # xs)))"

text \<open>
  \<^verbatim>\<open>convert\<close> of \<^verbatim>\<open>event.to_object\<close> (lines 435-448): the values of a dictionary are
  converted, in the order of the items, and \<^verbatim>\<open>type('Event', (), {...})\<close> is called on the
  result; a list is converted element by element; every other value is returned as it
  is.
\<close>

primrec convert :: "pyval \<Rightarrow> error + pyval" where
  "convert (PDict kvs) =
     (case collect_items (map (map_prod id convert) kvs) of
        Inl e \<Rightarrow> Inl e
      | Inr namespace \<Rightarrow> type_Event namespace)"
| "convert (PList xs) =
     (case collect (map convert xs) of Inl e \<Rightarrow> Inl e | Inr ys \<Rightarrow> Inr (PList ys))"
| "convert PNone = Inr PNone"
| "convert (PBool b) = Inr (PBool b)"
| "convert (PInt n) = Inr (PInt n)"
| "convert (PStr s) = Inr (PStr s)"
| "convert (PObj attrs) = Inr (PObj attrs)"
| "convert (PEnum e) = Inr (PEnum e)"
| "convert (PRef a) = Inr (PRef a)"
| "convert (PBuiltin n) = Inr (PBuiltin n)"

definition to_object :: "pyval \<Rightarrow> error + pyval" where
  "to_object item = convert item"

text \<open>\<^verbatim>\<open>isinstance(item, dict)\<close> and \<^verbatim>\<open>isinstance(item, list)\<close>.\<close>

fun is_dict :: "pyval \<Rightarrow> bool" where
  "is_dict (PDict kvs) = True"
| "is_dict v = False"

fun is_list :: "pyval \<Rightarrow> bool" where
  "is_list (PList xs) = True"
| "is_list v = False"

text \<open>
  \<^verbatim>\<open>getattr(obj, name)\<close> on a class made by \<open>to_object\<close>. A name that is not reserved is
  looked up in the entries of the class and raises \<^verbatim>\<open>AttributeError\<close> when it is not there.
  Under a double-underscore name the class machinery answers (\<^verbatim>\<open>__name__\<close> reads \<^verbatim>\<open>'Event'\<close>
  whatever the entries say, \<^verbatim>\<open>__doc__\<close> reads \<^verbatim>\<open>None\<close> without an entry), and so it does for
  \<^verbatim>\<open>mro\<close>, the one other name that \<^verbatim>\<open>type\<close> defines, when the class has no such entry.
\<close>

fun getattr :: "pyval \<Rightarrow> string \<Rightarrow> error + pyval" where
  "getattr (PObj attrs) name =
     (if dunder name then class_attr_reserved attrs name
      else case map_of attrs name of
             Some v \<Rightarrow> Inr v
           | None \<Rightarrow>
               if name = ''mro'' then class_attr_reserved attrs name
               else Inl (AttributeError name))"
| "getattr v name = value_attr v name"

subsection \<open>The class \<open>events\<close>\<close>

text \<open>
  \<^verbatim>\<open>getattr(events, name)\<close>: the member of that name. A name that begins with a capital
  letter and has no member raises \<^verbatim>\<open>AttributeError\<close>: every other attribute of an
  enumeration class begins with an underscore or a small letter (\<^verbatim>\<open>__members__\<close>, \<^verbatim>\<open>mro\<close>, ...),
  and what those give is \<open>events_class_attr\<close>.
\<close>

definition capital_initial :: "string \<Rightarrow> bool" where
  "capital_initial name =
     (case name of [] \<Rightarrow> False | c # cs \<Rightarrow> c \<in> set ''ABCDEFGHIJKLMNOPQRSTUVWXYZ'')"

definition getattr_events :: "string \<Rightarrow> error + pyval" where
  "getattr_events name =
     (case map_of events_members name of
        Some member \<Rightarrow> Inr (PEnum member)
      | None \<Rightarrow>
          if capital_initial name then Inl (AttributeError name)
          else events_class_attr name)"

text \<open>\<^verbatim>\<open>hash(value)\<close> succeeds: lists and dictionaries cannot be keys of a dictionary.\<close>

definition hashable :: "pyval \<Rightarrow> bool" where
  "hashable v =
     (case v of
        PList xs \<Rightarrow> False
      | PDict kvs \<Rightarrow> False
      | PRef a \<Rightarrow> False
      | PBuiltin n \<Rightarrow> builtin_hashable n
      | _ \<Rightarrow> True)"

section \<open>State of the connector\<close>

text \<open>
  A task of the worker pool \<^verbatim>\<open>core.workers\<close>: \<^verbatim>\<open>queue(callback, new_event)\<close> submits a
  subscriber callback with its event, \<^verbatim>\<open>queue(handle_gateway_message, gateway_message)\<close> a
  frame to interpret. The pool itself is outside the repository's core; the model records
  what is submitted, in order.
\<close>

datatype 'cb task = Callback 'cb pyval | Handler pyval

text \<open>
  The fields of a \<open>Discord\<close> instance that the loops share (\<open>connected\<close>, \<open>ping\<close>,
  \<open>sequence\<close>, \<open>ping_start\<close>, \<open>heartbeat_interval\<close>, \<open>status\<close>), the class attribute
  \<open>event.subscriptions\<close> with the store of its list objects, and what the connector has
  handed to its collaborators: the frames given to \<^verbatim>\<open>socket.send\<close>, the records given to the
  logger and the tasks given to the worker pool. Times are seconds, as \<^verbatim>\<open>time.time()\<close> and
  \<^verbatim>\<open>time.monotonic()\<close> return them, read as exact reals.
\<close>

record 'cb world =
  connected :: bool
  ping :: int
  sequence :: pyval
  ping_start :: real
  heartbeat_interval :: int
  status :: string
  subscriptions :: "events \<rightharpoonup> addr"
  heap :: "addr \<rightharpoonup> 'cb list"
  next_addr :: addr
  sent :: "pyval list"
  logger :: "(string \<times> string) list"
  workers :: "'cb task list"

text \<open>
  \<^verbatim>\<open>Discord.__init__\<close> (lines 35-39) with an empty class attribute \<^verbatim>\<open>subscriptions = {}\<close>
  (line 410); \<open>heartbeat_interval\<close> and \<open>ping_start\<close> are set by \<open>connect\<close> and are
  parameters here.
\<close>

definition init :: "int \<Rightarrow> real \<Rightarrow> 'cb world" where
  "init interval start =
     \<lparr> connected = False, ping = - 1, sequence = PInt 0, ping_start = start,
       heartbeat_interval = interval, status = [],
       subscriptions = Map.empty, heap = Map.empty, next_addr = 0,
       sent = [], logger = [], workers = [] \<rparr>"

section \<open>The subscription registry: class \<open>event\<close>\<close>

text \<open>
  \<^verbatim>\<open>event.subscribe\<close> (lines 417-424): a key seen for the first time is bound to a new list
  object holding the callback; otherwise the callback is appended to the key's list
  object, in place.
\<close>

definition subscribe :: "events \<Rightarrow> 'cb \<Rightarrow> 'cb world \<Rightarrow> 'cb world" where
  "subscribe event_id callback w =
     (case subscriptions w event_id of
        None \<Rightarrow>
          w\<lparr> subscriptions := (subscriptions w)(event_id \<mapsto> next_addr w),
             heap := (heap w)(next_addr w \<mapsto> [callback]),
             next_addr := Suc (next_addr w) \<rparr>
      | Some a \<Rightarrow>
          w\<lparr> heap := (heap w)(a \<mapsto> (case heap w a of None \<Rightarrow> [] | Some cbs \<Rightarrow> cbs) @ [callback]) \<rparr>)"

text \<open>
  \<^verbatim>\<open>event.unsubscribe\<close> (lines 412-415): nothing happens for a key that is not in the
  dictionary; for a key that is, \<^verbatim>\<open>list.remove(callback)\<close> deletes the first element equal
  to the callback, in place, and raises \<^verbatim>\<open>ValueError\<close> when there is none.
\<close>

definition unsubscribe :: "events \<Rightarrow> 'cb \<Rightarrow> 'cb world \<Rightarrow> error + 'cb world" where
  "unsubscribe event_id callback w =
     (case subscriptions w event_id of
        None \<Rightarrow> Inr w
      | Some a \<Rightarrow>
          (let cbs = (case heap w a of None \<Rightarrow> [] | Some cbs \<Rightarrow> cbs)
           in if callback \<in> set cbs
              then Inr (w\<lparr> heap := (heap w)(a \<mapsto> remove1 callback cbs) \<rparr>)
              else Inl ValueError))"

text \<open>The list object behind a reference, as iterating over it reads it.\<close>

definition deref :: "'cb world \<Rightarrow> pyval \<Rightarrow> 'cb list" where
  "deref w v = (case v of PRef a \<Rightarrow> (case heap w a of None \<Rightarrow> [] | Some cbs \<Rightarrow> cbs) | _ \<Rightarrow> [])"

text \<open>\<^verbatim>\<open>message[key]\<close> on a decoded frame: \<^verbatim>\<open>KeyError\<close> for a missing key.\<close>

fun getitem :: "pyval \<Rightarrow> string \<Rightarrow> error + pyval" where
  "getitem (PDict kvs) key =
     (case map_of kvs key of None \<Rightarrow> Inl (KeyError key) | Some v \<Rightarrow> Inr v)"
| "getitem v key = Inl TypeError"

text \<open>
  \<^verbatim>\<open>obj.name = value\<close>: on a class made by \<open>to_object\<close> an existing attribute is rebound, a
  new one is added; the other values \<open>to_object\<close> can return (\<^verbatim>\<open>None\<close>, numbers, strings,
  lists) have no attributes to set and raise \<^verbatim>\<open>AttributeError\<close>.
\<close>

fun set_attr :: "string \<Rightarrow> pyval \<Rightarrow> (string \<times> pyval) list \<Rightarrow> (string \<times> pyval) list" where
  "set_attr name v [] = [(name, v)]"
| "set_attr name v ((k, u) # attrs) =
     (if k = name then (k, v) # attrs else (k, u) # set_attr name v attrs)"

fun setattr :: "pyval \<Rightarrow> string \<Rightarrow> pyval \<Rightarrow> error + pyval" where
  "setattr (PObj attrs) name v = Inr (PObj (set_attr name v attrs))"
| "setattr obj name v = Inl (AttributeError name)"

text \<open>
  \<^verbatim>\<open>cls.subscriptions.get(name, [])\<close> (line 431): the registry's own list object for a
  registered key, as a reference (no copy is made), and a new empty list otherwise. The
  keys of the registry are members of \<open>events\<close>, so any other value finds no entry; a
  value that cannot be hashed raises \<^verbatim>\<open>TypeError\<close>.
\<close>

definition get_subscriptions :: "pyval \<Rightarrow> 'cb world \<Rightarrow> error + (pyval \<times> 'cb world)" where
  "get_subscriptions name w =
     (case name of
        PEnum member \<Rightarrow>
          (case subscriptions w member of
             Some a \<Rightarrow> Inr (PRef a, w)
           | None \<Rightarrow>
               Inr (PRef (next_addr w),
                    w\<lparr> heap := (heap w)(next_addr w \<mapsto> []), next_addr := Suc (next_addr w) \<rparr>))
      | _ \<Rightarrow>
          if hashable name
          then Inr (PRef (next_addr w),
                    w\<lparr> heap := (heap w)(next_addr w \<mapsto> []), next_addr := Suc (next_addr w) \<rparr>)
          else Inl TypeError)"

text \<open>
  \<^verbatim>\<open>event.from_message\<close> (lines 426-433). The payload \<^verbatim>\<open>message["d"]\<close> is converted, then the
  attributes \<open>name\<close>, \<open>sequence\<close> and \<open>subscriptions\<close> are set on the result, in this order;
  each right-hand side is evaluated before its assignment.
\<close>

definition from_message :: "pyval \<Rightarrow> 'cb world \<Rightarrow> error + (pyval \<times> 'cb world)" where
  "from_message message w =
     (case getitem message ''d'' of Inl e \<Rightarrow> Inl e | Inr d \<Rightarrow>
      (case to_object d of Inl e \<Rightarrow> Inl e | Inr obj \<Rightarrow>
      (case getitem message ''t'' of Inl e \<Rightarrow> Inl e | Inr t \<Rightarrow>
      (case t of
         PStr tname \<Rightarrow>
           (case getattr_events tname of Inl e \<Rightarrow> Inl e | Inr name \<Rightarrow>
           (case setattr obj ''name'' name of Inl e \<Rightarrow> Inl e | Inr ev1 \<Rightarrow>
           (case getitem message ''s'' of Inl e \<Rightarrow> Inl e | Inr s \<Rightarrow>
           (case setattr ev1 ''sequence'' s of Inl e \<Rightarrow> Inl e | Inr ev2 \<Rightarrow>
           (case get_subscriptions name w of Inl e \<Rightarrow> Inl e | Inr (subs, w') \<Rightarrow>
           (case setattr ev2 ''subscriptions'' subs of Inl e \<Rightarrow> Inl e
            | Inr new_event \<Rightarrow> Inr (new_event, w')))))))
       | _ \<Rightarrow> Inl TypeError))))"

text \<open>The subscriber sequence of a decoded event, as a loop over \<^verbatim>\<open>new_event.subscriptions\<close> reads it.\<close>

definition event_subscriptions :: "'cb world \<Rightarrow> pyval \<Rightarrow> 'cb list" where
  "event_subscriptions w new_event =
     (case getattr new_event ''subscriptions'' of Inl e \<Rightarrow> [] | Inr r \<Rightarrow> deref w r)"

section \<open>The frame handler\<close>

text \<open>\<^verbatim>\<open>value == n\<close> for an integer literal \<open>n\<close>: Python's \<^verbatim>\<open>False\<close> and \<^verbatim>\<open>True\<close> equal 0 and 1.\<close>

fun py_eq_int :: "pyval \<Rightarrow> int \<Rightarrow> bool" where
  "py_eq_int (PInt m) n = (m = n)"
| "py_eq_int (PBool b) n = ((if b then 1 else 0) = n)"
| "py_eq_int v n = False"

text \<open>
  Python's \<^verbatim>\<open>round\<close> on a number (ties go to the even neighbour), which is also how
  \<^verbatim>\<open>timedelta(seconds=x)\<close> rounds to whole microseconds.
\<close>

definition round_half_even :: "real \<Rightarrow> int" where
  "round_half_even x =
     (let f = \<lfloor>x\<rfloor>; d = x - of_int f
      in if d < 1 / 2 then f else if 1 / 2 < d then f + 1
         else if even f then f else f + 1)"

text \<open>
  \<^verbatim>\<open>timedelta(seconds=x).microseconds\<close>: a \<open>timedelta\<close> is normalised to days, seconds and
  microseconds, and this attribute is the last component only, between 0 and 999999.
\<close>

definition timedelta_microseconds :: "real \<Rightarrow> int" where
  "timedelta_microseconds x = round_half_even (x * 1000000) mod 1000000"

text \<open>
  Lines 201-202 (and 61-62 of \<open>connect\<close>):
  \<^verbatim>\<open>ping = timedelta(seconds=time.monotonic()-self.ping_start)\<close>,
  \<^verbatim>\<open>self.ping = round(ping.microseconds / 1000)\<close>.
\<close>

definition measure_ping :: "real \<Rightarrow> real \<Rightarrow> int" where
  "measure_ping monotonic start =
     round_half_even (of_int (timedelta_microseconds (monotonic - start)) / 1000)"

text \<open>
  \<^verbatim>\<open>handle_gateway_message\<close> (lines 184-202); \<open>monotonic\<close> is the reading of
  \<^verbatim>\<open>time.monotonic()\<close> when the frame is handled. Every error is raised before the first
  assignment, so an error leaves the state as it was.
\<close>

definition handle_gateway_message :: "real \<Rightarrow> pyval \<Rightarrow> 'cb world \<Rightarrow> error + 'cb world" where
  "handle_gateway_message monotonic gateway_message w =
     (case getitem gateway_message ''op'' of Inl e \<Rightarrow> Inl e | Inr opc \<Rightarrow>
        if py_eq_int opc 0 then
          (case from_message gateway_message w of Inl e \<Rightarrow> Inl e | Inr (new_event, w1) \<Rightarrow>
          (case getattr new_event ''sequence'' of Inl e \<Rightarrow> Inl e | Inr s \<Rightarrow>
             (let w2 = w1\<lparr> sequence := s \<rparr>
              in Inr (w2\<lparr> workers := workers w2 @
                        map (\<lambda>callback. Callback callback new_event)
                            (event_subscriptions w2 new_event) \<rparr>))))
        else if py_eq_int opc 9 then
          Inr (w\<lparr> connected := False,
                  logger := logger w @
                    [(''WARNING'', ''Connection terminated with Invalid Session ID'')] \<rparr>)
        else if py_eq_int opc 11 then
          Inr (w\<lparr> ping := measure_ping monotonic (ping_start w) \<rparr>)
        else Inr w)"

section \<open>Writing to the socket and the heartbeat loop\<close>

text \<open>What \<^verbatim>\<open>socket.send\<close> does with a frame: it returns, or raises one of the two handled errors.\<close>

datatype send_outcome = SendOk | SendSocketError int | SendClosed

text \<open>
  \<^verbatim>\<open>_write_socket\<close> (lines 214-231). A frame is recorded in \<open>sent\<close> when \<open>send\<close> returns. The
  state is only changed on the paths that return, so an error leaves it as it was.
\<close>

definition write_socket :: "send_outcome \<Rightarrow> pyval \<Rightarrow> 'cb world \<Rightarrow> error + 'cb world" where
  "write_socket outcome data w =
     (case outcome of
        SendOk \<Rightarrow> Inr (w\<lparr> sent := sent w @ [data] \<rparr>)
      | SendSocketError errno \<Rightarrow>
          if errno = 104 then
            (if \<not> connected w then Inr w
             else Inr (w\<lparr> logger := logger w @ [(''WARNING'', ''READ: Connection reset by peer.'')],
                          connected := False \<rparr>))
          else Inl (socket_error errno)
      | SendClosed \<Rightarrow>
          if \<not> connected w then Inr w
          else Inr (w\<lparr> logger := logger w @ [(''WARNING'', ''WRTIE: Websocket unexpectedly closed.'')],
                       connected := False \<rparr>))"

text \<open>\<^verbatim>\<open>set_status\<close> (lines 147-158): the status is stored before the frame is written.\<close>

definition status_frame :: "string \<Rightarrow> pyval" where
  "status_frame st =
     PDict [(''op'', PInt 3),
            (''d'', PDict [(''idle_since'', PNone), (''game'', PDict [(''name'', PStr st)])])]"

definition set_status :: "send_outcome \<Rightarrow> string \<Rightarrow> 'cb world \<Rightarrow> error option \<times> 'cb world" where
  "set_status outcome st w =
     (let w1 = w\<lparr> status := st \<rparr>
      in case write_socket outcome (status_frame st) w1 of
           Inl e \<Rightarrow> (Some e, w1)
         | Inr w2 \<Rightarrow> (None, w2))"

text \<open>Decimal text of an integer, as an f-string formats \<^verbatim>\<open>{self.ping}\<close>.\<close>

fun str_nat :: "nat \<Rightarrow> string" where
  "str_nat n =
     (if n < 10 then [''0123456789'' ! n]
      else str_nat (n div 10) @ [''0123456789'' ! (n mod 10)])"

definition str_int :: "int \<Rightarrow> string" where
  "str_int i = (if i < 0 then CHR ''-'' # str_nat (nat (- i)) else str_nat (nat i))"

text \<open>The heartbeat frame \<^verbatim>\<open>{"op":1,"d": self.sequence}\<close>.\<close>

definition heartbeat_frame :: "pyval \<Rightarrow> pyval" where
  "heartbeat_frame s = PDict [(''op'', PInt 1), (''d'', s)]"

text \<open>
  What one iteration of the loop of \<^verbatim>\<open>_heartbeat\<close> observes: the reading of \<^verbatim>\<open>time.time()\<close> at
  its start, the reading of \<^verbatim>\<open>time.monotonic()\<close> and the outcome of the heartbeat write, the
  reading of \<^verbatim>\<open>time.time()\<close> after the write, and the outcome of the status write.
\<close>

record tick =
  tick_now :: real
  tick_monotonic :: real
  tick_send :: send_outcome
  tick_after :: real
  tick_status_send :: send_outcome

text \<open>The test of line 170, \<^verbatim>\<open>(now - last_heartbeat) >= heartbeat_interval - 1\<close>.\<close>

definition heartbeat_due :: "real \<Rightarrow> real \<Rightarrow> real \<Rightarrow> bool" where
  "heartbeat_due interval_s last_heartbeat now_s \<longleftrightarrow> now_s - last_heartbeat \<ge> interval_s - 1"

text \<open>
  The body of the loop (lines 168-177), returning the error raised, if any, the new
  \<open>last_heartbeat\<close> and the state.
\<close>

definition heartbeat_body ::
  "real \<Rightarrow> tick \<Rightarrow> real \<Rightarrow> 'cb world \<Rightarrow> error option \<times> real \<times> 'cb world" where
  "heartbeat_body interval_s tk last_heartbeat w =
     (if heartbeat_due interval_s last_heartbeat (tick_now tk) then
        (let w1 = w\<lparr> ping_start := tick_monotonic tk \<rparr>
         in case write_socket (tick_send tk) (heartbeat_frame (sequence w1)) w1 of
              Inl e \<Rightarrow> (Some e, last_heartbeat, w1)
            | Inr w2 \<Rightarrow>
                (let w3 = w2\<lparr> logger := logger w2 @ [(''DEBUG'', ''Heartbeat'')] \<rparr>;
                     (r, w4) = set_status (tick_status_send tk)
                                 (''Ping: '' @ str_int (ping w3) @ ''ms'') w3
                 in (r, tick_after tk, w4)))
      else (None, last_heartbeat, w))"

text \<open>
  How a loop stands when its observations end: it has left the \<^verbatim>\<open>while\<close> (the thread
  function returns), it is still running and waits for more, or an error has ended it.
\<close>

datatype loop_status = Exited | Running | Raised error

text \<open>
  The loop \<^verbatim>\<open>while self.connected\<close> of \<^verbatim>\<open>_heartbeat\<close> (lines 167-179) over the observations of
  its iterations; \<open>interval_s\<close> is the local \<^verbatim>\<open>heartbeat_interval\<close>, in seconds.
\<close>

fun heartbeat_loop ::
  "real \<Rightarrow> tick list \<Rightarrow> real \<Rightarrow> 'cb world \<Rightarrow> loop_status \<times> real \<times> 'cb world" where
  "heartbeat_loop interval_s [] last_heartbeat w =
     (if \<not> connected w then (Exited, last_heartbeat, w) else (Running, last_heartbeat, w))"
| "heartbeat_loop interval_s (tk # ticks) last_heartbeat w =
     (if \<not> connected w then (Exited, last_heartbeat, w)
      else case heartbeat_body interval_s tk last_heartbeat w of
             (Some e, last', w') \<Rightarrow> (Raised e, last', w')
           | (None, last', w') \<Rightarrow> heartbeat_loop interval_s ticks last' w')"

text \<open>
  \<^verbatim>\<open>_heartbeat\<close> (lines 161-179): \<open>start\<close> is the reading of \<^verbatim>\<open>time.time()\<close> on entry, the
  interval is \<^verbatim>\<open>self.heartbeat_interval / 1000\<close>.
\<close>

definition heartbeat :: "real \<Rightarrow> tick list \<Rightarrow> 'cb world \<Rightarrow> loop_status \<times> real \<times> 'cb world" where
  "heartbeat start ticks w =
     heartbeat_loop (of_int (heartbeat_interval w) / 1000) ticks start
       (w\<lparr> logger := logger w @
             [(''DEBUG'', ''Spawning heartbeat thread at interval: '' @ str_int (heartbeat_interval w))] \<rparr>)"

section \<open>Reading from the socket and the consumer loop\<close>

text \<open>
  What one call of \<^verbatim>\<open>socket.recv()\<close> does: it returns a text, or raises \<^verbatim>\<open>SSLError\<close> or
  \<^verbatim>\<open>socket_error\<close> with an \<open>errno\<close>, or \<^verbatim>\<open>WebSocketConnectionClosedException\<close>. The socket
  is the list of these outcomes, in the order of the calls.
\<close>

datatype recv = Recv string | RecvSSLError int | RecvSocketError int | RecvClosed

text \<open>
  How a call of \<^verbatim>\<open>_read_socket\<close> ends: it returns a value (\<open>PNone\<close> is Python's \<^verbatim>\<open>None\<close>), it
  raises, or its \<^verbatim>\<open>while True\<close> is still running when the known outcomes of the socket end.
\<close>

datatype read_outcome = Returned pyval | ReadRaised error | Pending

text \<open>
  \<^verbatim>\<open>_read_socket\<close> (lines 233-272). \<open>loads\<close> stands for \<^verbatim>\<open>json.loads(data.rstrip())\<close> of the
  standard library, \<open>None\<close> for its \<^verbatim>\<open>ValueError\<close>; \<open>data\<close> is the local buffer. A text that
  does not parse stays in the buffer and the loop calls \<open>recv\<close> again (line 246-247); an
  error raised by \<open>recv\<close> leaves the buffer as it is. The result is the outcome, the rest
  of the socket and the state.
\<close>

fun read_socket ::
  "(string \<Rightarrow> pyval option) \<Rightarrow> recv list \<Rightarrow> string \<Rightarrow> 'cb world
     \<Rightarrow> read_outcome \<times> recv list \<times> 'cb world" where
  "read_socket loads [] data w = (Pending, [], w)"
| "read_socket loads (Recv text # rest) data w =
     (if data @ text \<noteq> [] then
        (case loads (data @ text) of
           Some v \<Rightarrow> (Returned v, rest, w)
         | None \<Rightarrow> read_socket loads rest (data @ text) w)
      else (Returned PNone, rest, w))"
| "read_socket loads (RecvSSLError errno # rest) data w =
     (if errno = 2 then (Returned PNone, rest, w) else (ReadRaised (SSLError errno), rest, w))"
| "read_socket loads (RecvSocketError errno # rest) data w =
     (if errno = 104 then
        (if \<not> connected w then (Returned PNone, rest, w)
         else (Returned PNone, rest,
               w\<lparr> logger := logger w @ [(''WARNING'', ''READ: Connection reset by peer.'')],
                  connected := False \<rparr>))
      else if errno = 11 then (Returned PNone, rest, w)
      else (ReadRaised (socket_error errno), rest, w))"
| "read_socket loads (RecvClosed # rest) data w =
     (if \<not> connected w then (Returned PNone, rest, w)
      else read_socket loads rest data
             (w\<lparr> logger := logger w @ [(''WARNING'', ''READ: Websocket unexpectedly closed.'')],
                connected := False \<rparr>))"

text \<open>\<^verbatim>\<open>not gateway_message\<close>: the values Python takes as false.\<close>

fun falsy :: "pyval \<Rightarrow> bool" where
  "falsy PNone = True"
| "falsy (PBool b) = (\<not> b)"
| "falsy (PInt n) = (n = 0)"
| "falsy (PStr s) = (s = [])"
| "falsy (PList xs) = (xs = [])"
| "falsy (PDict kvs) = (kvs = [])"
| "falsy v = False"

text \<open>
  The body of the loop of \<^verbatim>\<open>_message_consumer\<close> (lines 205-211): one read, and the frame,
  if there is one, is queued for \<open>handle_gateway_message\<close> on the worker pool.
\<close>

definition consumer_body ::
  "(string \<Rightarrow> pyval option) \<Rightarrow> recv list \<Rightarrow> 'cb world \<Rightarrow> read_outcome \<times> recv list \<times> 'cb world" where
  "consumer_body loads sock w =
     (case read_socket loads sock [] w of
        (Returned gateway_message, rest, w') \<Rightarrow>
          (if falsy gateway_message then (Returned gateway_message, rest, w')
           else (Returned gateway_message, rest,
                 w'\<lparr> workers := workers w' @ [Handler gateway_message] \<rparr>))
      | r \<Rightarrow> r)"

text \<open>
  The loop \<^verbatim>\<open>while self.connected\<close> of \<^verbatim>\<open>_message_consumer\<close> (lines 204-211), for a number of
  iterations: the loop leaves when \<open>connected\<close> is false at the test, an error of the read
  ends it, and it is still running when the iterations or the socket's known outcomes
  are used up.
\<close>

fun message_consumer ::
  "(string \<Rightarrow> pyval option) \<Rightarrow> nat \<Rightarrow> recv list \<Rightarrow> 'cb world
     \<Rightarrow> loop_status \<times> recv list \<times> 'cb world" where
  "message_consumer loads 0 sock w =
     (if \<not> connected w then (Exited, sock, w) else (Running, sock, w))"
| "message_consumer loads (Suc n) sock w =
     (if \<not> connected w then (Exited, sock, w)
      else case consumer_body loads sock w of
             (Returned v, rest, w') \<Rightarrow> message_consumer loads n rest w'
           | (ReadRaised e, rest, w') \<Rightarrow> (Raised e, rest, w')
           | (Pending, rest, w') \<Rightarrow> (Running, rest, w'))"

section \<open>Reading the model\<close>

text \<open>
  The content of \<^verbatim>\<open>cls.subscriptions.get(event_id, [])\<close>: the callbacks registered for a key,
  in the order of the key's list, and none for a key without a list.
\<close>

definition subscribers :: "'cb world \<Rightarrow> events \<Rightarrow> 'cb list" where
  "subscribers w event_id =
     (case subscriptions w event_id of None \<Rightarrow> [] | Some a \<Rightarrow> deref w (PRef a))"

text \<open>
  The worker pool running queued frames one after the other, each with the reading of
  \<^verbatim>\<open>time.monotonic()\<close> at that moment. An error raised by the handler ends that task only; it
  was raised before any assignment, so the state is as before the task.
\<close>

fun run_handlers :: "(real \<times> pyval) list \<Rightarrow> 'cb world \<Rightarrow> 'cb world" where
  "run_handlers [] w = w"
| "run_handlers ((monotonic, gateway_message) # frames) w =
     run_handlers frames
       (case handle_gateway_message monotonic gateway_message w of Inl e \<Rightarrow> w | Inr w' \<Rightarrow> w')"

text \<open>
  A value none of whose dictionaries, at any depth, has a double-underscore key.
\<close>

primrec plain_keys :: "pyval \<Rightarrow> bool" where
  "plain_keys (PDict kvs) =
     (\<not> any_dunder kvs \<and> list_all snd (map (map_prod id plain_keys) kvs))"
| "plain_keys (PList xs) = list_all id (map plain_keys xs)"
| "plain_keys PNone = True"
| "plain_keys (PBool b) = True"
| "plain_keys (PInt n) = True"
| "plain_keys (PStr s) = True"
| "plain_keys (PObj attrs) = True"
| "plain_keys (PEnum e) = True"
| "plain_keys (PRef a) = True"
| "plain_keys (PBuiltin n) = True"

section \<open>The threads of a session\<close>

text \<open>
  Where a loop thread stands: at the test of its \<^verbatim>\<open>while self.connected\<close>, inside the body
  of an iteration (the test has been passed and is not made again before the body
  ends), returned from its function, or ended by an error.
\<close>

datatype thread = AtTest | InBody | Done | Dead error

fun finished :: "thread \<Rightarrow> bool" where
  "finished Done = True"
| "finished (Dead e) = True"
| "finished t = False"

text \<open>
  A session after \<open>connect\<close>: the shared state, the heartbeat thread with its local
  \<open>last_heartbeat\<close> and \<open>heartbeat_interval\<close>, and the consumer thread.
\<close>

record 'cb session =
  world :: "'cb world"
  heartbeat_thread :: thread
  last_heartbeat :: real
  interval_s :: real
  message_consumer_thread :: thread

text \<open>
  The end of \<open>connect\<close> (lines 82-93): the flag is set and both threads are started; each
  comes to the test of its loop. \<open>start\<close> is the reading of \<^verbatim>\<open>time.time()\<close> with which
  \<open>_heartbeat\<close> begins (line 164).
\<close>

definition start_threads :: "real \<Rightarrow> 'cb world \<Rightarrow> 'cb session" where
  "start_threads start w =
     \<lparr> world = w\<lparr> connected := True \<rparr>, heartbeat_thread = AtTest, last_heartbeat = start,
       interval_s = of_int (heartbeat_interval w) / 1000, message_consumer_thread = AtTest \<rparr>"

text \<open>
  One step of one thread, as the scheduler interleaves them. The worker pool handles a
  frame (an error ends that task and leaves the state, see \<open>handle_gateway_message\<close>).
  The heartbeat thread makes the test of line 167, or runs the body of lines 168-179
  with the observations of that iteration. The consumer thread makes the test of line
  204, or runs the body of lines 205-211 on what the socket gives during that read; a
  read that has not returned leaves the thread in the body.
\<close>

datatype action =
    Handle real pyval
  | HeartbeatStep tick
  | ConsumerStep "recv list"

fun step :: "(string \<Rightarrow> pyval option) \<Rightarrow> action \<Rightarrow> 'cb session \<Rightarrow> 'cb session" where
  "step loads (Handle monotonic gateway_message) s =
     (case handle_gateway_message monotonic gateway_message (world s) of
        Inl e \<Rightarrow> s
      | Inr w' \<Rightarrow> s\<lparr> world := w' \<rparr>)"
| "step loads (HeartbeatStep tk) s =
     (case heartbeat_thread s of
        AtTest \<Rightarrow>
          if connected (world s) then s\<lparr> heartbeat_thread := InBody \<rparr>
          else s\<lparr> heartbeat_thread := Done \<rparr>
      | InBody \<Rightarrow>
          (case heartbeat_body (interval_s s) tk (last_heartbeat s) (world s) of
             (Some e, last', w') \<Rightarrow>
               s\<lparr> world := w', last_heartbeat := last', heartbeat_thread := Dead e \<rparr>
           | (None, last', w') \<Rightarrow>
               s\<lparr> world := w', last_heartbeat := last', heartbeat_thread := AtTest \<rparr>)
      | Done \<Rightarrow> s
      | Dead e \<Rightarrow> s)"
| "step loads (ConsumerStep sock) s =
     (case message_consumer_thread s of
        AtTest \<Rightarrow>
          if connected (world s) then s\<lparr> message_consumer_thread := InBody \<rparr>
          else s\<lparr> message_consumer_thread := Done \<rparr>
      | InBody \<Rightarrow>
          (case consumer_body loads sock (world s) of
             (Returned v, rest, w') \<Rightarrow> s\<lparr> world := w', message_consumer_thread := AtTest \<rparr>
           | (ReadRaised e, rest, w') \<Rightarrow> s\<lparr> world := w', message_consumer_thread := Dead e \<rparr>
           | (Pending, rest, w') \<Rightarrow> s\<lparr> world := w' \<rparr>)
      | Done \<Rightarrow> s
      | Dead e \<Rightarrow> s)"

definition run :: "(string \<Rightarrow> pyval option) \<Rightarrow> action list \<Rightarrow> 'cb session \<Rightarrow> 'cb session" where
  "run loads actions s = fold (step loads) actions s"

text \<open>
  \<^verbatim>\<open>disconnect\<close> (lines 95-111): the flag is cleared and both threads are joined. While
  \<open>disconnect\<close> waits in a join the threads make the steps \<open>actions\<close>; the joins have
  returned when both threads are finished, and \<open>None\<close> stands for a \<open>disconnect\<close> that is
  still waiting after these steps.
\<close>

definition disconnect ::
  "(string \<Rightarrow> pyval option) \<Rightarrow> action list \<Rightarrow> 'cb session \<Rightarrow> 'cb session option" where
  "disconnect loads actions s =
     (let s1 = run loads actions (s\<lparr> world := (world s)\<lparr> connected := False \<rparr> \<rparr>)
      in if finished (heartbeat_thread s1) \<and> finished (message_consumer_thread s1)
         then Some (s1\<lparr> world := (world s1)\<lparr> logger := logger (world s1) @
                      [(''DEBUG'', ''Joined message_consumer and heartbeat threads''),
                       (''INFO'', ''Disconnected from Discord'')] \<rparr> \<rparr>)
         else None)"

text \<open>Steps of the heartbeat thread and of the consumer thread in a schedule.\<close>

fun is_heartbeat_step :: "action \<Rightarrow> bool" where
  "is_heartbeat_step (HeartbeatStep tk) = True"
| "is_heartbeat_step a = False"

fun is_consumer_step :: "action \<Rightarrow> bool" where
  "is_consumer_step (ConsumerStep sock) = True"
| "is_consumer_step a = False"

text \<open>
  How many steps of its own a loop thread can still make once \<open>connected\<close> is false:
  the body it is in and the test that follows, or the test alone.
\<close>

fun steps_left :: "thread \<Rightarrow> nat" where
  "steps_left InBody = 2"
| "steps_left AtTest = 1"
| "steps_left Done = 0"
| "steps_left (Dead e) = 0"

section \<open>Readings and examples\<close>

text \<open>The frames with opcode 1 among some frames.\<close>

definition heartbeat_frames :: "pyval list \<Rightarrow> pyval list" where
  "heartbeat_frames frames = filter (\<lambda>f. getitem f ''op'' = Inr (PInt 1)) frames"

text \<open>
  The Dispatch frame the gateway sends when the pins of a channel change:
  \<^verbatim>\<open>{"op": 0, "s": 6, "t": "CHANNEL_PINS_UPDATE", "d": {"channel_id": "1"}}\<close>.
\<close>

definition channel_pins_update_frame :: pyval where
  "channel_pins_update_frame =
     PDict [(''op'', PInt 0), (''s'', PInt 6), (''t'', PStr ''CHANNEL_PINS_UPDATE''),
            (''d'', PDict [(''channel_id'', PStr ''1'')])]"

text \<open>
  The class that \<open>from_message\<close> returns for a payload converted to the attributes
  \<open>attrs\<close>: the three assignments of lines 429-431, the last one binding the list object
  at address \<open>a\<close>.
\<close>

definition new_event_of ::
  "(string \<times> pyval) list \<Rightarrow> events \<Rightarrow> pyval \<Rightarrow> addr \<Rightarrow> pyval" where
  "new_event_of attrs k s a =
     PObj (set_attr ''subscriptions'' (PRef a)
            (set_attr ''sequence'' s (set_attr ''name'' (PEnum k) attrs)))"

text \<open>
  The Dispatch frame of the spec's Scenario B, as \<^verbatim>\<open>json.loads\<close> returns it:
  \<^verbatim>\<open>{"op": 0, "s": 5, "t": "MESSAGE_CREATE", "d": {"content": "hi"}}\<close>.
\<close>

definition message_create_frame :: pyval where
  "message_create_frame =
     PDict [(''op'', PInt 0), (''s'', PInt 5), (''t'', PStr ''MESSAGE_CREATE''),
            (''d'', PDict [(''content'', PStr ''hi'')])]"

text \<open>
  The observations of a heartbeat loop that ticks once per time unit from \<open>start\<close> on,
  with writes that succeed: iteration \<open>k\<close> reads the clock at \<open>start + k\<close>.
\<close>

definition unit_tick :: "real \<Rightarrow> nat \<Rightarrow> tick" where
  "unit_tick start k =
     \<lparr> tick_now = start + real k, tick_monotonic = start + real k, tick_send = SendOk,
       tick_after = start + real k, tick_status_send = SendOk \<rparr>"

text \<open>
  Texts for an example of reading: \<open>ack_text\<close> is the HeartbeatAck frame
  \<^verbatim>\<open>{"op": 11}\<close>, \<open>bad_text\<close> the unparseable text \<^verbatim>\<open>{bad\<close>. \<open>loads_example\<close> gives the values
  of \<^verbatim>\<open>json.loads(data.rstrip())\<close> at the three texts of the example: \<open>ack_text\<close> parses
  to the dictionary, \<open>bad_text\<close> and \<open>bad_text\<close> followed by \<open>ack_text\<close> raise
  \<^verbatim>\<open>ValueError\<close>. It is not meant for any other text.
\<close>

definition ack_text :: string where
  "ack_text = [CHR ''{'', CHR 0x22] @ ''op'' @ [CHR 0x22] @ '': 11}''"

definition bad_text :: string where
  "bad_text = ''{bad''"

definition loads_example :: "string \<Rightarrow> pyval option" where
  "loads_example data =
     (if data = ack_text then Some (PDict [(''op'', PInt 11)]) else None)"

section \<open>Theorems\<close>

subsection \<open>Decoding\<close>

lemma dunder_simps:
  "\<not> dunder ''name''" "\<not> dunder ''sequence''" "\<not> dunder ''subscriptions''"
  "\<not> dunder ''content''" "\<not> dunder ''channel_id''" "\<not> dunder ''mro''"
  "dunder ''__qualname__''" "dunder ''__slots__''"
  by (simp_all add: dunder_def)

lemma to_object_not_container: "\<not> is_dict v \<Longrightarrow> \<not> is_list v \<Longrightarrow> to_object v = Inr v"
  by (cases v) (simp_all add: to_object_def)

lemma any_dunder_map_prod: "any_dunder (map (map_prod id f) kvs) = any_dunder kvs"
  by (induction kvs) auto

lemma any_dunder_iff: "any_dunder kvs \<longleftrightarrow> (\<exists>k \<in> fst ` set kvs. dunder k)"
  by (induction kvs) auto

lemma collect_map_Inr: "collect (map Inr ys) = Inr ys"
  by (induction ys) simp_all

lemma collect_InrD: "collect rs = Inr ys \<Longrightarrow> rs = map Inr ys"
proof (induction rs arbitrary: ys)
  case Nil
  then show ?case by simp
next
  case (Cons r rs)
  from Cons.prems obtain x where r: "r = Inr x"
    by (cases r) simp_all
  from Cons.prems r obtain xs where c: "collect rs = Inr xs"
    by (cases "collect rs") simp_all
  from Cons.prems r c have ys: "ys = x # xs" by simp
  from Cons.IH[OF c] have "rs = map Inr xs" .
  then show ?case by (simp add: r ys)
qed

lemma collect_map_InrD:
  "collect (map f xs) = Inr ys \<Longrightarrow> length ys = length xs \<and> (\<forall>i<length xs. f (xs ! i) = Inr (ys ! i))"
proof -
  assume "collect (map f xs) = Inr ys"
  then have m: "map f xs = map Inr ys" by (rule collect_InrD)
  then have l: "length ys = length xs" by (metis length_map)
  have "f (xs ! i) = Inr (ys ! i)" if "i < length xs" for i
  proof -
    have "map f xs ! i = map Inr ys ! i" using m by simp
    then show ?thesis using that l by simp
  qed
  then show ?thesis using l by blast
qed

lemma collect_map_success:
  "\<forall>x \<in> set xs. \<exists>r. f x = Inr r \<Longrightarrow> \<exists>ys. collect (map f xs) = Inr ys"
proof (induction xs)
  case Nil
  then show ?case by simp
next
  case (Cons x xs)
  then obtain r ys where "f x = Inr r" "collect (map f xs) = Inr ys" by auto
  then show ?case by simp
qed

lemma collect_items_InrD_gen:
  assumes g: "\<And>k v. g (k, v) = (k, f v)"
  shows "collect_items (map g kvs) = Inr ns \<Longrightarrow>
   map fst ns = map fst kvs \<and> length ns = length kvs
   \<and> (\<forall>i<length kvs. f (snd (kvs ! i)) = Inr (snd (ns ! i)))"
proof (induction kvs arbitrary: ns)
  case Nil
  then show ?case by simp
next
  case (Cons p kvs)
  obtain k v where p: "p = (k, v)" by (cases p)
  have e: "collect_items (map g (p # kvs)) =
      (case f v of Inl e \<Rightarrow> Inl e
       | Inr x \<Rightarrow> (case collect_items (map g kvs) of Inl e \<Rightarrow> Inl e | Inr xs \<Rightarrow> Inr ((k, x) # xs)))"
    by (simp add: p g)
  from Cons.prems e obtain x where r: "f v = Inr x"
    by (cases "f v") simp_all
  from Cons.prems e r obtain xs where c: "collect_items (map g kvs) = Inr xs"
    by (cases "collect_items (map g kvs)") simp_all
  from Cons.prems e r c have ns: "ns = (k, x) # xs" by simp
  note ih = Cons.IH[OF c]
  have "f (snd ((p # kvs) ! i)) = Inr (snd (ns ! i))" if "i < length (p # kvs)" for i
    using that ih r by (cases i) (simp_all add: p ns)
  then show ?case using ih by (simp add: p ns)
qed

lemma collect_items_InrD:
  "collect_items (map (map_prod id f) kvs) = Inr ns \<Longrightarrow>
   map fst ns = map fst kvs \<and> length ns = length kvs
   \<and> (\<forall>i<length kvs. f (snd (kvs ! i)) = Inr (snd (ns ! i)))"
  by (rule collect_items_InrD_gen[where g = "map_prod id f"]) simp_all

lemma collect_items_success_gen:
  assumes g: "\<And>k v. g (k, v) = (k, f v)"
  shows "\<forall>p \<in> set kvs. \<exists>r. f (snd p) = Inr r \<Longrightarrow> \<exists>ns. collect_items (map g kvs) = Inr ns"
proof (induction kvs)
  case Nil
  then show ?case by simp
next
  case (Cons p kvs)
  obtain k v where p: "p = (k, v)" by (cases p)
  from Cons.prems p obtain r where r: "f v = Inr r" by auto
  from Cons obtain ns where c: "collect_items (map g kvs) = Inr ns" by auto
  have "collect_items (map g (p # kvs)) = Inr ((k, r) # ns)"
    by (simp add: p g r c)
  then show ?case by blast
qed

lemma collect_items_success:
  "\<forall>p \<in> set kvs. \<exists>r. f (snd p) = Inr r \<Longrightarrow>
   \<exists>ns. collect_items (map (map_prod id f) kvs) = Inr ns"
  by (rule collect_items_success_gen[where g = "map_prod id f"]) simp_all

lemma any_dunder_fst: "map fst ns = map fst kvs \<Longrightarrow> any_dunder ns = any_dunder kvs"
  by (metis any_dunder_iff set_map)

lemma map_of_nth_items:
  "map fst ns = map fst kvs \<Longrightarrow> map_of kvs k = Some v \<Longrightarrow>
   \<exists>i<length kvs. kvs ! i = (k, v) \<and> map_of ns k = Some (snd (ns ! i))"
proof (induction kvs arbitrary: ns)
  case Nil
  then show ?case by simp
next
  case (Cons p kvs)
  obtain k' v' where p: "p = (k', v')" by (cases p)
  from Cons.prems(1) obtain q ns' where ns: "ns = q # ns'" "fst q = k'" "map fst ns' = map fst kvs"
    by (cases ns) (auto simp: p)
  show ?case
  proof (cases "k' = k")
    case True
    then have "v' = v" using Cons.prems(2) p by simp
    then have "(p # kvs) ! 0 = (k, v) \<and> map_of ns k = Some (snd (ns ! 0))"
      using True p ns by (cases q) simp
    then show ?thesis by blast
  next
    case False
    then have "map_of kvs k = Some v" using Cons.prems(2) p by simp
    from Cons.IH[OF ns(3) this] obtain i where
      i: "i < length kvs" "kvs ! i = (k, v)" "map_of ns' k = Some (snd (ns' ! i))" by blast
    have "Suc i < length (p # kvs) \<and> (p # kvs) ! Suc i = (k, v)
          \<and> map_of ns k = Some (snd (ns ! Suc i))"
      using i False ns by (cases q) simp
    then show ?thesis by blast
  qed
qed

lemma map_of_None_items:
  "map fst ns = map fst kvs \<Longrightarrow> map_of kvs k = None \<Longrightarrow> map_of ns k = None"
  by (metis map_of_eq_None_iff set_map)

lemma map_of_set_attr:
  "map_of (set_attr name v attrs) k = (if k = name then Some v else map_of attrs k)"
  by (induction attrs) auto

lemma setattr_Inr_iff:
  "setattr obj name v = Inr r \<longleftrightarrow> (\<exists>attrs. obj = PObj attrs \<and> r = PObj (set_attr name v attrs))"
  by (cases obj) auto

lemma from_message_decoded:
  assumes "getitem msg ''d'' = Inr d" "getitem msg ''t'' = Inr (PStr tname)"
    "getattr_events tname = Inr (PEnum k)" "getitem msg ''s'' = Inr s"
    "to_object d = Inr (PObj attrs)"
  shows "from_message msg w =
     (case subscriptions w k of
        Some a \<Rightarrow> Inr (new_event_of attrs k s a, w)
      | None \<Rightarrow> Inr (new_event_of attrs k s (next_addr w),
                     w\<lparr> heap := (heap w)(next_addr w \<mapsto> []), next_addr := Suc (next_addr w) \<rparr>))"
  using assms
  by (simp add: from_message_def get_subscriptions_def new_event_of_def split: option.splits)

lemma get_subscriptions_Inr:
  assumes "get_subscriptions name w = Inr (r, w')"
  shows "w' = w \<or> w' = w\<lparr> heap := (heap w)(next_addr w \<mapsto> []), next_addr := Suc (next_addr w) \<rparr>"
  using assms
  by (auto simp: get_subscriptions_def split: pyval.splits option.splits if_splits)

lemma from_message_InrD:
  assumes "from_message msg w = Inr (ev, w')"
  shows "\<exists>d tname name s attrs. getitem msg ''d'' = Inr d \<and> getitem msg ''t'' = Inr (PStr tname)
     \<and> getattr_events tname = Inr name \<and> getitem msg ''s'' = Inr s
     \<and> to_object d = Inr (PObj attrs)
     \<and> (w' = w \<or> w' = w\<lparr> heap := (heap w)(next_addr w \<mapsto> []), next_addr := Suc (next_addr w) \<rparr>)"
proof -
  obtain d where d: "getitem msg ''d'' = Inr d"
    using assms by (auto simp: from_message_def split: sum.splits)
  obtain obj where obj: "to_object d = Inr obj"
    using assms d by (auto simp: from_message_def split: sum.splits)
  obtain t where t: "getitem msg ''t'' = Inr t"
    using assms d obj by (auto simp: from_message_def split: sum.splits)
  obtain tname where tn: "t = PStr tname"
    using assms d obj t by (cases t) (auto simp: from_message_def)
  obtain name where nm: "getattr_events tname = Inr name"
    using assms d obj t tn by (auto simp: from_message_def split: sum.splits)
  obtain ev1 where e1: "setattr obj ''name'' name = Inr ev1"
    using assms d obj t tn nm by (auto simp: from_message_def split: sum.splits)
  obtain s where s: "getitem msg ''s'' = Inr s"
    using assms d obj t tn nm e1 by (auto simp: from_message_def split: sum.splits)
  obtain ev2 where e2: "setattr ev1 ''sequence'' s = Inr ev2"
    using assms d obj t tn nm e1 s by (auto simp: from_message_def split: sum.splits)
  obtain r w1 where g: "get_subscriptions name w = Inr (r, w1)"
    using assms d obj t tn nm e1 s e2 by (auto simp: from_message_def split: sum.splits)
  have w': "w' = w1"
    using assms d obj t tn nm e1 s e2 g by (auto simp: from_message_def split: sum.splits)
  obtain attrs where "obj = PObj attrs" using e1 by (auto simp: setattr_Inr_iff)
  then show ?thesis using d obj t tn nm s get_subscriptions_Inr[OF g] w' by blast
qed

lemma getattr_new_event_of:
  "getattr (new_event_of attrs k s a) ''subscriptions'' = Inr (PRef a)"
  "getattr (new_event_of attrs k s a) ''sequence'' = Inr s"
  "getattr (new_event_of attrs k s a) ''name'' = Inr (PEnum k)"
  by (simp_all add: new_event_of_def map_of_set_attr dunder_simps)


lemma subscribers_subscribe:
  "subscribers (subscribe k cb w) k = subscribers w k @ [cb]"
  by (simp add: subscribers_def subscribe_def deref_def split: option.splits)

lemma subscribers_fold_subscribe:
  "subscribers (fold (subscribe k) cbs w) k = subscribers w k @ cbs"
  by (induction cbs arbitrary: w) (simp_all add: subscribers_subscribe)

lemma from_message_member:
  assumes "from_message msg w = Inr (ev, w')" "getitem msg ''t'' = Inr (PStr tname)"
    "getattr_events tname = Inr (PEnum k)"
  shows "\<exists>d s attrs. getitem msg ''d'' = Inr d \<and> getitem msg ''s'' = Inr s
     \<and> to_object d = Inr (PObj attrs)"
  using from_message_InrD[OF assms(1)] by blast

lemma event_subscriptions_from_message:
  assumes "from_message msg w = Inr (ev, w')" "getitem msg ''t'' = Inr (PStr tname)"
    "getattr_events tname = Inr (PEnum k)"
  shows "event_subscriptions w' ev = subscribers w k"
proof -
  from from_message_member[OF assms] obtain d s attrs where
    h: "getitem msg ''d'' = Inr d" "getitem msg ''s'' = Inr s" "to_object d = Inr (PObj attrs)"
    by auto
  show ?thesis
    using assms(1) from_message_decoded[OF h(1) assms(2,3) h(2,3), of w]
    by (auto simp: event_subscriptions_def getattr_new_event_of subscribers_def deref_def
             split: option.splits)
qed

lemma getattr_events_MESSAGE_CREATE: "getattr_events ''MESSAGE_CREATE'' = Inr (PEnum MESSAGE_CREATE)"
  by (simp add: getattr_events_def events_members_def)

lemma to_object_content: "to_object (PDict [(''content'', PStr ''hi'')]) = Inr (PObj [(''content'', PStr ''hi'')])"
  by (simp add: to_object_def type_Event_def dunder_simps)

lemma from_message_message_create_frame:
  "from_message message_create_frame w =
     (case subscriptions w MESSAGE_CREATE of
        Some a \<Rightarrow> Inr (new_event_of [(''content'', PStr ''hi'')] MESSAGE_CREATE (PInt 5) a, w)
      | None \<Rightarrow> Inr (new_event_of [(''content'', PStr ''hi'')] MESSAGE_CREATE (PInt 5) (next_addr w),
                     w\<lparr> heap := (heap w)(next_addr w \<mapsto> []), next_addr := Suc (next_addr w) \<rparr>))"
  by (rule from_message_decoded[where d = "PDict [(''content'', PStr ''hi'')]" and tname = "''MESSAGE_CREATE''"])
     (simp_all add: message_create_frame_def getattr_events_MESSAGE_CREATE to_object_content)

subsection \<open>The registry\<close>

lemma unsubscribe_Inr:
  assumes "unsubscribe k cb w = Inr w'"
  shows "subscribers w' k = remove1 cb (subscribers w k)" "subscriptions w' = subscriptions w"
  using assms
  by (auto simp: unsubscribe_def subscribers_def deref_def Let_def split: option.splits if_splits)

lemma unsubscribe_unregistered: "subscriptions w k = None \<Longrightarrow> unsubscribe k cb w = Inr w"
  by (simp add: unsubscribe_def)

lemma unsubscribe_registered:
  "subscriptions w k = Some a \<Longrightarrow>
   unsubscribe k cb w =
     (if cb \<in> set (subscribers w k)
      then Inr (w\<lparr> heap := (heap w)(a \<mapsto> remove1 cb (subscribers w k)) \<rparr>)
      else Inl ValueError)"
  by (simp add: unsubscribe_def subscribers_def deref_def Let_def)

lemma not_in_remove1_count:
  "count_list xs x \<le> 1 \<Longrightarrow> x \<notin> set (remove1 x xs)"
  by (induction xs) (auto simp: count_list_0_iff split: if_splits)

lemma from_message_registered:
  assumes "from_message msg w = Inr (ev, w1)" "getitem msg ''t'' = Inr (PStr tname)"
    "getattr_events tname = Inr (PEnum k)" "subscriptions w k = Some a"
  shows "getattr ev ''subscriptions'' = Inr (PRef a)" "w1 = w"
proof -
  from from_message_member[OF assms(1,2,3)] obtain d s attrs where
    h: "getitem msg ''d'' = Inr d" "getitem msg ''s'' = Inr s" "to_object d = Inr (PObj attrs)"
    by auto
  show "getattr ev ''subscriptions'' = Inr (PRef a)" "w1 = w"
    using assms(1,4) from_message_decoded[OF h(1) assms(2,3) h(2,3), of w]
    by (auto simp: getattr_new_event_of)
qed

lemma from_message_unregistered:
  assumes "from_message msg w = Inr (ev, w1)" "getitem msg ''t'' = Inr (PStr tname)"
    "getattr_events tname = Inr (PEnum k)" "subscriptions w k = None"
  shows "getattr ev ''subscriptions'' = Inr (PRef (next_addr w))"
    "w1 = w\<lparr> heap := (heap w)(next_addr w \<mapsto> []), next_addr := Suc (next_addr w) \<rparr>"
proof -
  from from_message_member[OF assms(1,2,3)] obtain d s attrs where
    h: "getitem msg ''d'' = Inr d" "getitem msg ''s'' = Inr s" "to_object d = Inr (PObj attrs)"
    by auto
  show "getattr ev ''subscriptions'' = Inr (PRef (next_addr w))"
    "w1 = w\<lparr> heap := (heap w)(next_addr w \<mapsto> []), next_addr := Suc (next_addr w) \<rparr>"
    using assms(1,4) from_message_decoded[OF h(1) assms(2,3) h(2,3), of w]
    by (auto simp: getattr_new_event_of)
qed

lemma event_subscriptions_registered:
  "getattr ev ''subscriptions'' = Inr (PRef a) \<Longrightarrow> subscriptions w k = Some a \<Longrightarrow>
   event_subscriptions w ev = subscribers w k"
  by (simp add: event_subscriptions_def subscribers_def)

lemma wA_facts:
  "subscriptions (subscribe MESSAGE_CREATE ''cbA'' (init 41250 0)) MESSAGE_CREATE = Some 0"
  "subscribers (subscribe MESSAGE_CREATE ''cbA'' (init 41250 0)) MESSAGE_CREATE = [''cbA'']"
  by (simp_all add: subscribe_def init_def subscribers_def deref_def)

lemma handle_dispatch:
  assumes "getitem msg ''op'' = Inr opc" "py_eq_int opc 0" "from_message msg w = Inr (ev, w1)"
    "getitem msg ''t'' = Inr (PStr tname)" "getattr_events tname = Inr (PEnum k)"
    "getitem msg ''s'' = Inr s"
  shows "handle_gateway_message monotonic msg w =
           Inr (w1\<lparr> sequence := s,
                    workers := workers w @ map (\<lambda>callback. Callback callback ev) (subscribers w k) \<rparr>)"
    and "getattr ev ''sequence'' = Inr s"
proof -
  from from_message_member[OF assms(3,4,5)] obtain d attrs where
    h: "getitem msg ''d'' = Inr d" "to_object d = Inr (PObj attrs)"
    by auto
  have w1: "workers w1 = workers w"
    using assms(3) from_message_decoded[OF h(1) assms(4,5,6) h(2), of w]
    by (auto split: option.splits)
  show s: "getattr ev ''sequence'' = Inr s"
    using assms(3) from_message_decoded[OF h(1) assms(4,5,6) h(2), of w]
    by (auto simp: getattr_new_event_of split: option.splits)
  have "event_subscriptions (w1\<lparr> sequence := s \<rparr>) ev = event_subscriptions w1 ev"
    by (simp add: event_subscriptions_def deref_def split: sum.splits pyval.splits)
  then have "event_subscriptions (w1\<lparr> sequence := s \<rparr>) ev = subscribers w k"
    using event_subscriptions_from_message[OF assms(3,4,5)] by simp
  then show "handle_gateway_message monotonic msg w =
           Inr (w1\<lparr> sequence := s,
                    workers := workers w @ map (\<lambda>callback. Callback callback ev) (subscribers w k) \<rparr>)"
    using assms(1,2,3) s w1 by (simp add: handle_gateway_message_def Let_def)
qed

subsection \<open>Sequences of frames\<close>

lemma run_handlers_append:
  "run_handlers (fs @ gs) w = run_handlers gs (run_handlers fs w)"
  by (induction fs arbitrary: w) auto

subsection \<open>Writing and the heartbeat loop\<close>

lemma write_socket_Inr:
  assumes "write_socket outcome data w = Inr w'"
  shows "sequence w' = sequence w" "ping w' = ping w" "\<not> connected w \<Longrightarrow> \<not> connected w'"
    "sent w' = (if outcome = SendOk then sent w @ [data] else sent w)"
    "heap w' = heap w" "subscriptions w' = subscriptions w" "workers w' = workers w"
  using assms
  by (auto simp: write_socket_def split: send_outcome.splits if_splits)

lemma set_status_facts:
  assumes "set_status outcome st w = (r, w')"
  shows "sequence w' = sequence w \<and> ping w' = ping w \<and> (\<not> connected w \<longrightarrow> \<not> connected w') \<and>
      sent w' = (if outcome = SendOk then sent w @ [status_frame st] else sent w)"
proof (cases "write_socket outcome (status_frame st) (w\<lparr> status := st \<rparr>)")
  case (Inl e)
  then have "w' = w\<lparr> status := st \<rparr>"
    using assms by (auto simp: set_status_def Let_def)
  moreover have "outcome \<noteq> SendOk"
    using Inl by (auto simp: write_socket_def)
  ultimately show ?thesis by simp
next
  case (Inr w2)
  then have e: "w' = w2" using assms by (simp add: set_status_def Let_def)
  show ?thesis
    using write_socket_Inr(1,2,3,4)[OF Inr] by (simp add: e)
qed

lemma heartbeat_body_not_due:
  "\<not> heartbeat_due i lst (tick_now tk) \<Longrightarrow> heartbeat_body i tk lst w = (None, lst, w)"
  by (simp add: heartbeat_body_def)

lemma status_frame_op: "getitem (status_frame st) ''op'' = Inr (PInt 3)"
  by (simp add: status_frame_def)

lemma heartbeat_body_due_ok:
  assumes "heartbeat_due i lst (tick_now tk)" "tick_send tk = SendOk"
  shows "\<exists>r w4. heartbeat_body i tk lst w = (r, tick_after tk, w4) \<and>
           sent w4 = sent w @ heartbeat_frame (sequence w) #
             (if tick_status_send tk = SendOk
              then [status_frame (''Ping: '' @ str_int (ping w) @ ''ms'')] else [])"
proof -
  define w3 where "w3 = w\<lparr> ping_start := tick_monotonic tk,
        sent := sent w @ [heartbeat_frame (sequence w)],
        logger := logger w @ [(''DEBUG'', ''Heartbeat'')] \<rparr>"
  define stx where "stx = ''Ping: '' @ str_int (ping w) @ ''ms''"
  obtain r w4 where s: "set_status (tick_status_send tk) stx w3 = (r, w4)"
    by (cases "set_status (tick_status_send tk) stx w3")
  have "heartbeat_body i tk lst w = (r, tick_after tk, w4)"
    using assms s by (simp add: heartbeat_body_def write_socket_def Let_def w3_def stx_def)
  moreover have "sent w4 = sent w @ heartbeat_frame (sequence w) #
             (if tick_status_send tk = SendOk then [status_frame stx] else [])"
    using set_status_facts[OF s] by (simp add: w3_def)
  ultimately show ?thesis unfolding stx_def by blast
qed

lemma heartbeat_body_facts:
  assumes "heartbeat_body i tk lst w = (r, lst', w')"
  shows "sequence w' = sequence w \<and> (\<not> connected w \<longrightarrow> \<not> connected w') \<and>
    (\<exists>new. sent w' = sent w @ new \<and>
       (\<forall>f \<in> set new. getitem f ''op'' = Inr (PInt 1) \<longrightarrow> f = heartbeat_frame (sequence w)))"
proof (cases "heartbeat_due i lst (tick_now tk)")
  case False
  then have "w' = w" using assms by (simp add: heartbeat_body_not_due)
  then show ?thesis by simp
next
  case True
  define w1 where "w1 = w\<lparr> ping_start := tick_monotonic tk \<rparr>"
  have w1: "sequence w1 = sequence w" "connected w1 = connected w" "sent w1 = sent w"
    by (simp_all add: w1_def)
  show ?thesis
  proof (cases "write_socket (tick_send tk) (heartbeat_frame (sequence w1)) w1")
    case (Inl e)
    then have "w' = w1"
      using assms True by (simp add: heartbeat_body_def Let_def w1_def)
    then show ?thesis using w1 by simp
  next
    case (Inr w2)
    define w3 where "w3 = w2\<lparr> logger := logger w2 @ [(''DEBUG'', ''Heartbeat'')] \<rparr>"
    define stx where "stx = ''Ping: '' @ str_int (ping w3) @ ''ms''"
    obtain r4 w4 where s: "set_status (tick_status_send tk) stx w3 = (r4, w4)"
      by (cases "set_status (tick_status_send tk) stx w3")
    have e: "w' = w4"
      using assms True Inr s by (simp add: heartbeat_body_def Let_def w1_def w3_def stx_def)
    note ws = write_socket_Inr(1,3,4)[OF Inr]
    note ss = set_status_facts[OF s]
    have q: "sequence w4 = sequence w" using ws(1) ss w1 by (simp add: w3_def)
    have c: "\<not> connected w \<longrightarrow> \<not> connected w4" using ws(2) ss w1 by (simp add: w3_def)
    define new where "new = (if tick_send tk = SendOk then [heartbeat_frame (sequence w)] else [])
        @ (if tick_status_send tk = SendOk then [status_frame stx] else [])"
    have n: "sent w4 = sent w @ new" using ws(3) ss w1 by (simp add: new_def w3_def)
    have "\<forall>f \<in> set new. getitem f ''op'' = Inr (PInt 1) \<longrightarrow> f = heartbeat_frame (sequence w)"
      by (auto simp: new_def status_frame_op)
    then have "\<exists>new. sent w4 = sent w @ new \<and>
       (\<forall>f \<in> set new. getitem f ''op'' = Inr (PInt 1) \<longrightarrow> f = heartbeat_frame (sequence w))"
      using n by (intro exI[of _ new]) simp
    then show ?thesis using q c by (simp add: e)
  qed
qed

lemma heartbeat_loop_disconnected:
  "\<not> connected w \<Longrightarrow> heartbeat_loop i ticks lst w = (Exited, lst, w)"
  by (cases ticks) simp_all

lemma heartbeat_loop_facts:
  assumes "heartbeat_loop i ticks lst w = (st, lst', w')"
  shows "sequence w' = sequence w \<and>
    (\<exists>new. sent w' = sent w @ new \<and>
       (\<forall>f \<in> set new. getitem f ''op'' = Inr (PInt 1) \<longrightarrow> f = heartbeat_frame (sequence w)))"
  using assms
proof (induction ticks arbitrary: lst w)
  case Nil
  then have "w' = w" by (simp split: if_splits)
  then show ?case by simp
next
  case (Cons tk ticks)
  show ?case
  proof (cases "connected w")
    case False
    then have "w' = w" using Cons.prems by simp
    then show ?thesis by simp
  next
    case True
    obtain r l1 w1 where b: "heartbeat_body i tk lst w = (r, l1, w1)"
      by (cases "heartbeat_body i tk lst w")
    from heartbeat_body_facts[OF b] obtain new where
      bf: "sequence w1 = sequence w" "sent w1 = sent w @ new"
        "\<forall>f \<in> set new. getitem f ''op'' = Inr (PInt 1) \<longrightarrow> f = heartbeat_frame (sequence w)"
      by blast
    show ?thesis
    proof (cases r)
      case (Some e)
      then have e: "w' = w1" using Cons.prems True b by simp
      have "\<exists>new. sent w1 = sent w @ new \<and>
         (\<forall>f \<in> set new. getitem f ''op'' = Inr (PInt 1) \<longrightarrow> f = heartbeat_frame (sequence w))"
        using bf(2,3) by (intro exI[of _ new]) simp
      then show ?thesis using bf(1) by (simp add: e)
    next
      case None
      then have "heartbeat_loop i ticks l1 w1 = (st, lst', w')"
        using Cons.prems True b by simp
      from Cons.IH[OF this] obtain newa where
        ih: "sequence w' = sequence w1" "sent w' = sent w1 @ newa"
          "\<forall>f \<in> set newa. getitem f ''op'' = Inr (PInt 1) \<longrightarrow> f = heartbeat_frame (sequence w1)"
        by blast
      have a1: "sent w' = sent w @ (new @ newa)" using bf(2) ih(2) by simp
      have a2: "\<forall>f \<in> set (new @ newa).
          getitem f ''op'' = Inr (PInt 1) \<longrightarrow> f = heartbeat_frame (sequence w)"
        using bf(1,3) ih(3) by auto
      have "\<exists>n. sent w' = sent w @ n \<and>
         (\<forall>f \<in> set n. getitem f ''op'' = Inr (PInt 1) \<longrightarrow> f = heartbeat_frame (sequence w))"
        using a1 a2 by (intro exI[of _ "new @ newa"]) simp
      then show ?thesis using bf(1) ih(1) by simp
    qed
  qed
qed

lemma str_int_minus_one: "str_int (- 1) = ''-1''"
  by (simp add: str_int_def)

lemma str_int_examples: "str_int 500 = ''500''" "str_int 0 = ''0''" "str_int 42 = ''42''"
  by (simp_all add: str_int_def)

lemma heartbeat_loop_skip:
  assumes "\<forall>tk \<in> set pre. \<not> heartbeat_due i lst (tick_now tk)"
  shows "heartbeat_loop i (pre @ ticks) lst w = heartbeat_loop i ticks lst w"
  using assms
proof (induction pre)
  case Nil
  then show ?case by simp
next
  case (Cons tk pre)
  then show ?case
    by (cases ticks) (simp_all add: heartbeat_body_not_due heartbeat_loop_disconnected)
qed

lemma heartbeat_loop_not_due_sent:
  assumes "\<forall>tk \<in> set pre. \<not> heartbeat_due i lst (tick_now tk)"
  shows "snd (snd (heartbeat_loop i pre lst w)) = w"
  using heartbeat_loop_skip[OF assms, of "[]" w] by (simp split: if_splits)

lemma heartbeat_loop_single:
  "connected w \<Longrightarrow> heartbeat_body i tk lst w = (r, l', w4) \<Longrightarrow>
   snd (snd (heartbeat_loop i [tk] lst w)) = w4"
  by (cases r) (auto split: if_splits)

lemma heartbeat_first_send:
  assumes "connected w" "\<forall>tk \<in> set pre. \<not> heartbeat_due i lst (tick_now tk)"
    "heartbeat_due i lst (tick_now tk)" "tick_send tk = SendOk"
  shows "sent (snd (snd (heartbeat_loop i (pre @ [tk]) lst w))) =
           sent w @ heartbeat_frame (sequence w) #
             (if tick_status_send tk = SendOk
              then [status_frame (''Ping: '' @ str_int (ping w) @ ''ms'')] else [])"
proof -
  from heartbeat_body_due_ok[OF assms(3,4), of w] obtain r w4 where
    b: "heartbeat_body i tk lst w = (r, tick_after tk, w4)"
    and s: "sent w4 = sent w @ heartbeat_frame (sequence w) #
             (if tick_status_send tk = SendOk
              then [status_frame (''Ping: '' @ str_int (ping w) @ ''ms'')] else [])"
    by blast
  show ?thesis
    using heartbeat_loop_skip[OF assms(2), of "[tk]" w] heartbeat_loop_single[OF assms(1) b] s
    by simp
qed

lemma unit_tick_simps:
  "tick_now (unit_tick start k) = start + real k" "tick_send (unit_tick start k) = SendOk"
  "tick_status_send (unit_tick start k) = SendOk"
  by (simp_all add: unit_tick_def)

lemma unit_ticks_not_due:
  "\<forall>tk \<in> set (map (unit_tick start) [0..<41]). \<not> heartbeat_due (of_int 41250 / 1000) start (tick_now tk)"
  by (auto simp: unit_tick_simps heartbeat_due_def)

lemma heartbeat_unit_ticks:
  assumes "connected w" "heartbeat_interval w = 41250"
  shows "sent (snd (snd (heartbeat start (map (unit_tick start) [0..<41]) w))) = sent w"
    and "sent (snd (snd (heartbeat start (map (unit_tick start) [0..<42]) w)))
            = sent w @ [heartbeat_frame (sequence w),
                        status_frame (''Ping: '' @ str_int (ping w) @ ''ms'')]"
proof -
  define w0 where "w0 = w\<lparr> logger := logger w @
             [(''DEBUG'', ''Spawning heartbeat thread at interval: '' @ str_int (heartbeat_interval w))] \<rparr>"
  have w0: "sent w0 = sent w" "sequence w0 = sequence w" "connected w0 = connected w" "ping w0 = ping w"
    by (simp_all add: w0_def)
  have hb: "heartbeat start tks w = heartbeat_loop (of_int (heartbeat_interval w) / 1000) tks start w0" for tks
    by (simp add: heartbeat_def w0_def)
  have c: "connected w0" using assms w0 by simp
  have du: "heartbeat_due (of_int 41250 / 1000) start (tick_now (unit_tick start 41))"
    by (simp add: unit_tick_simps heartbeat_due_def)
  have sp: "map (unit_tick start) [0..<42] = map (unit_tick start) [0..<41] @ [unit_tick start 41]"
  proof -
    have "[0..<42] = [0..<41] @ [41::nat]"
      using upt_Suc_append[of 0 41] by simp
    then show ?thesis by simp
  qed
  show "sent (snd (snd (heartbeat start (map (unit_tick start) [0..<41]) w))) = sent w"
    using heartbeat_loop_not_due_sent[OF unit_ticks_not_due, of start w0] assms w0 by (simp add: hb)
  show "sent (snd (snd (heartbeat start (map (unit_tick start) [0..<42]) w)))
            = sent w @ [heartbeat_frame (sequence w),
                        status_frame (''Ping: '' @ str_int (ping w) @ ''ms'')]"
    using heartbeat_first_send[OF c unit_ticks_not_due du unit_tick_simps(2)] assms w0
    by (simp add: hb sp unit_tick_simps del: upt_Suc)
qed

subsection \<open>Reading and the consumer loop\<close>

lemma read_socket_state:
  "read_socket loads sock data w = (out, rest, w') \<Longrightarrow>
   sequence w' = sequence w \<and> ping w' = ping w \<and> workers w' = workers w \<and> sent w' = sent w
   \<and> (\<not> connected w \<longrightarrow> w' = w)
   \<and> (RecvClosed \<notin> set sock \<and> RecvSocketError 104 \<notin> set sock \<longrightarrow> w' = w)"
proof (induction loads sock data w rule: read_socket.induct)
  case 1
  then show ?case by simp
next
  case 2
  then show ?case by (auto split: if_splits option.splits)
next
  case 3
  then show ?case by (auto split: if_splits)
next
  case 4
  then show ?case by (auto split: if_splits)
next
  case 5
  then show ?case by (auto split: if_splits)
qed

lemma read_socket_unparseable:
  "loads (data @ text) = None \<Longrightarrow> data @ text \<noteq> [] \<Longrightarrow>
   read_socket loads (Recv text # rest) data w = read_socket loads rest (data @ text) w"
  by simp

lemma loads_example_simps:
  "loads_example ack_text = Some (PDict [(''op'', PInt 11)])"
  "loads_example bad_text = None"
  "loads_example (bad_text @ ack_text) = None"
  "bad_text \<noteq> []" "ack_text \<noteq> []"
  by (simp_all add: loads_example_def ack_text_def bad_text_def)

lemma from_message_keeps:
  assumes "from_message msg w = Inr (ev, w1)"
  shows "sent w1 = sent w \<and> connected w1 = connected w"
  using from_message_InrD[OF assms] by auto

lemma handle_gateway_message_facts:
  assumes "handle_gateway_message monotonic msg w = Inr w'"
  shows "sent w' = sent w \<and> (\<not> connected w \<longrightarrow> \<not> connected w')"
proof (cases "getitem msg ''op''")
  case (Inl e)
  then show ?thesis using assms by (simp add: handle_gateway_message_def)
next
  case (Inr opc)
  show ?thesis
  proof (cases "py_eq_int opc 0")
    case True
    show ?thesis
    proof (cases "from_message msg w")
      case (Inl e)
      then show ?thesis using assms Inr True by (simp add: handle_gateway_message_def)
    next
      case fm: (Inr p)
      obtain ev w1 where p: "p = (ev, w1)" by (cases p)
      note k = from_message_keeps[OF fm[unfolded p]]
      show ?thesis
      proof (cases "getattr ev ''sequence''")
        case (Inl e)
        then show ?thesis
          using assms Inr True fm p by (simp add: handle_gateway_message_def)
      next
        case sq: (Inr s)
        have "w' = w1\<lparr> sequence := s,
          workers := workers (w1\<lparr> sequence := s \<rparr>) @
            map (\<lambda>callback. Callback callback ev) (event_subscriptions (w1\<lparr> sequence := s \<rparr>) ev) \<rparr>"
          using assms Inr True fm p sq by (simp add: handle_gateway_message_def Let_def)
        then show ?thesis using k by simp
      qed
    qed
  next
    case False
    then show ?thesis
      using assms Inr by (auto simp: handle_gateway_message_def split: if_splits)
  qed
qed

lemma handle_invalid_session:
  "getitem msg ''op'' = Inr (PInt 9) \<Longrightarrow>
   handle_gateway_message monotonic msg w =
     Inr (w\<lparr> connected := False,
             logger := logger w @
               [(''WARNING'', ''Connection terminated with Invalid Session ID'')] \<rparr>)"
  by (simp add: handle_gateway_message_def)

lemma message_consumer_disconnected:
  "\<not> connected w \<Longrightarrow> message_consumer loads n sock w = (Exited, sock, w)"
  by (cases n) simp_all

subsection \<open>Converting a payload\<close>

lemma type_Event_plain: "\<not> any_dunder ns \<Longrightarrow> type_Event ns = Inr (PObj ns)"
  by (simp add: type_Event_def)

lemma convert_plain: "plain_keys v \<Longrightarrow> \<exists>r. convert v = Inr r"
proof (induction v)
  case (PList xs)
  have "\<forall>x \<in> set xs. \<exists>r. convert x = Inr r"
    using PList by (auto simp: list_all_iff)
  from collect_map_success[OF this] obtain ys where "collect (map convert xs) = Inr ys" by blast
  then show ?case by simp
next
  case (PDict kvs)
  have nd: "\<not> any_dunder kvs" and pl: "\<forall>p \<in> set kvs. plain_keys (snd p)"
    using PDict.prems by (auto simp: list_all_iff)
  have "\<forall>p \<in> set kvs. \<exists>r. convert (snd p) = Inr r"
  proof
    fix p assume p: "p \<in> set kvs"
    obtain k x where kx: "p = (k, x)" by (cases p)
    have "x \<in> Basic_BNFs.snds p" by (simp add: kx)
    from PDict.IH[OF p this] pl p kx show "\<exists>r. convert (snd p) = Inr r" by auto
  qed
  from collect_items_success[OF this] obtain ns where
    ns: "collect_items (map (map_prod id convert) kvs) = Inr ns" by blast
  from collect_items_InrD[OF ns] have "map fst ns = map fst kvs" by simp
  then have "\<not> any_dunder ns" using nd any_dunder_fst by blast
  then show ?case using ns by (simp add: type_Event_plain)
qed simp_all

lemma to_object_dict_plain:
  assumes "plain_keys (PDict kvs)"
  shows "\<exists>attrs. to_object (PDict kvs) = Inr (PObj attrs) \<and> map fst attrs = map fst kvs
     \<and> (\<forall>i<length kvs. to_object (snd (kvs ! i)) = Inr (snd (attrs ! i)))"
proof -
  from convert_plain[OF assms] obtain r where r: "convert (PDict kvs) = Inr r" by blast
  then obtain ns where ns: "collect_items (map (map_prod id convert) kvs) = Inr ns"
    by (cases "collect_items (map (map_prod id convert) kvs)") simp_all
  note d = collect_items_InrD[OF ns]
  have "\<not> any_dunder kvs" using assms by simp
  then have "\<not> any_dunder ns" using d any_dunder_fst by blast
  then have "to_object (PDict kvs) = Inr (PObj ns)"
    using ns by (simp add: to_object_def type_Event_plain)
  then show ?thesis using d by (auto simp: to_object_def)
qed

lemma getattr_items:
  assumes "map fst attrs = map fst kvs"
    "\<forall>i<length kvs. to_object (snd (kvs ! i)) = Inr (snd (attrs ! i))"
    "\<not> dunder k" "k \<noteq> ''mro'' \<or> map_of kvs k \<noteq> None"
  shows "getattr (PObj attrs) k =
     (case map_of kvs k of None \<Rightarrow> Inl (AttributeError k) | Some x \<Rightarrow> to_object x)"
proof (cases "map_of kvs k")
  case None
  then have "map_of attrs k = None" using assms(1) by (rule map_of_None_items[rotated])
  then show ?thesis using None assms(3,4) by simp
next
  case (Some x)
  from map_of_nth_items[OF assms(1) Some] obtain i where
    i: "i < length kvs" "kvs ! i = (k, x)" "map_of attrs k = Some (snd (attrs ! i))" by blast
  have "to_object x = Inr (snd (attrs ! i))" using assms(2) i by auto
  then show ?thesis using Some i(3) assms(3) by simp
qed

lemma to_object_list:
  assumes "to_object (PList xs) = Inr r"
  shows "\<exists>ys. r = PList ys \<and> length ys = length xs
     \<and> (\<forall>i<length xs. to_object (xs ! i) = Inr (ys ! i))"
proof -
  from assms obtain ys where ys: "collect (map convert xs) = Inr ys" and r: "r = PList ys"
    by (cases "collect (map convert xs)") (auto simp: to_object_def)
  from collect_map_InrD[OF ys] show ?thesis using r by (auto simp: to_object_def)
qed

lemma to_object_reserved_raises:
  "to_object (PDict [(''__qualname__'', PInt n)]) = Inl TypeError"
  "to_object (PDict [(''__slots__'', PInt n)]) = Inl TypeError"
  by (simp_all add: to_object_def type_Event_def dunder_simps)

subsection \<open>A frame whose event name has no member\<close>

lemma getattr_events_pins:
  "getattr_events ''CHANNEL_PINS_UPDATE'' = Inl (AttributeError ''CHANNEL_PINS_UPDATE'')"
  "getattr_events ''CHANNEL_PINS_UPATE'' = Inr (PEnum CHANNEL_PINS_UPATE)"
  by (simp_all add: getattr_events_def events_members_def capital_initial_def)

lemma handle_channel_pins_update:
  "handle_gateway_message monotonic channel_pins_update_frame w
     = Inl (AttributeError ''CHANNEL_PINS_UPDATE'')"
  by (simp add: handle_gateway_message_def from_message_def channel_pins_update_frame_def
        to_object_def type_Event_def dunder_simps getattr_events_pins)

lemma handle_message_create_init:
  "handle_gateway_message monotonic message_create_frame (init 41250 0)
     = Inr ((init 41250 0)\<lparr> sequence := PInt 5, heap := [0 \<mapsto> []], next_addr := Suc 0 \<rparr>)"
proof -
  have s: "subscriptions (init 41250 0 :: 'a world) MESSAGE_CREATE = None"
    "subscribers (init 41250 0 :: 'a world) MESSAGE_CREATE = []"
    "next_addr (init 41250 0 :: 'a world) = 0" "heap (init 41250 0 :: 'a world) = Map.empty"
    "workers (init 41250 0 :: 'a world) = []"
    by (simp_all add: init_def subscribers_def)
  have f: "from_message message_create_frame (init 41250 0 :: 'a world) =
      Inr (new_event_of [(''content'', PStr ''hi'')] MESSAGE_CREATE (PInt 5) 0,
           (init 41250 0)\<lparr> heap := [0 \<mapsto> []], next_addr := Suc 0 \<rparr>)"
    by (simp add: from_message_message_create_frame s)
  have g: "getitem message_create_frame ''op'' = Inr (PInt 0)"
    "getitem message_create_frame ''t'' = Inr (PStr ''MESSAGE_CREATE'')"
    "getitem message_create_frame ''s'' = Inr (PInt 5)"
    by (simp_all add: message_create_frame_def)
  show ?thesis
    using handle_dispatch(1)[OF g(1) _ f g(2) getattr_events_MESSAGE_CREATE g(3), of monotonic]
    by (simp add: s)
qed

subsection \<open>The threads of a session\<close>

lemma heartbeat_frames_simps:
  "heartbeat_frames [] = []"
  "heartbeat_frames (xs @ ys) = heartbeat_frames xs @ heartbeat_frames ys"
  "heartbeat_frames [heartbeat_frame q] = [heartbeat_frame q]"
  "heartbeat_frames [status_frame st] = []"
  by (simp_all add: heartbeat_frames_def heartbeat_frame_def status_frame_def)

lemma heartbeat_body_count:
  assumes "heartbeat_body i tk lst w = (r, lst', w')"
  shows "\<exists>new. sent w' = sent w @ new \<and> length (heartbeat_frames new) \<le> 1"
proof (cases "heartbeat_due i lst (tick_now tk)")
  case False
  then have "w' = w" using assms by (simp add: heartbeat_body_not_due)
  then have "sent w' = sent w @ [] \<and> length (heartbeat_frames []) \<le> 1"
    by (simp add: heartbeat_frames_simps)
  then show ?thesis by blast
next
  case True
  define w1 where "w1 = w\<lparr> ping_start := tick_monotonic tk \<rparr>"
  have w1: "sequence w1 = sequence w" "sent w1 = sent w"
    by (simp_all add: w1_def)
  show ?thesis
  proof (cases "write_socket (tick_send tk) (heartbeat_frame (sequence w1)) w1")
    case (Inl e)
    then have "w' = w1"
      using assms True by (simp add: heartbeat_body_def Let_def w1_def)
    then have "sent w' = sent w @ [] \<and> length (heartbeat_frames []) \<le> 1"
      using w1 by (simp add: heartbeat_frames_simps)
    then show ?thesis by blast
  next
    case (Inr w2)
    define w3 where "w3 = w2\<lparr> logger := logger w2 @ [(''DEBUG'', ''Heartbeat'')] \<rparr>"
    define stx where "stx = ''Ping: '' @ str_int (ping w3) @ ''ms''"
    obtain r4 w4 where s: "set_status (tick_status_send tk) stx w3 = (r4, w4)"
      by (cases "set_status (tick_status_send tk) stx w3")
    have e: "w' = w4"
      using assms True Inr s by (simp add: heartbeat_body_def Let_def w1_def w3_def stx_def)
    note ws = write_socket_Inr(4)[OF Inr]
    note ss = set_status_facts[OF s]
    define new where "new = (if tick_send tk = SendOk then [heartbeat_frame (sequence w)] else [])
        @ (if tick_status_send tk = SendOk then [status_frame stx] else [])"
    have n: "sent w4 = sent w @ new" using ws ss w1 by (simp add: new_def w3_def)
    have "length (heartbeat_frames new) \<le> 1"
      by (simp add: new_def heartbeat_frames_simps)
    then show ?thesis using n e by blast
  qed
qed

lemma consumer_body_facts:
  assumes "consumer_body loads sock w = (out, rest, w')"
  shows "sent w' = sent w \<and> (\<not> connected w \<longrightarrow> \<not> connected w')"
proof -
  obtain o1 r1 w1 where r: "read_socket loads sock [] w = (o1, r1, w1)"
    by (cases "read_socket loads sock [] w")
  from read_socket_state[OF r] have f: "sent w1 = sent w" "\<not> connected w \<longrightarrow> w1 = w"
    by simp_all
  have "w' = w1 \<or> (\<exists>v. w' = w1\<lparr> workers := workers w1 @ [Handler v] \<rparr>)"
    using assms r by (cases o1) (auto simp: consumer_body_def split: if_splits)
  then show ?thesis using f by auto
qed

lemma consumer_body_Pending:
  "fst (consumer_body loads sock w) = Pending \<longleftrightarrow> fst (read_socket loads sock [] w) = Pending"
proof -
  obtain o1 r1 w1 where r: "read_socket loads sock [] w = (o1, r1, w1)"
    by (cases "read_socket loads sock [] w")
  show ?thesis using r by (cases o1) (simp_all add: consumer_body_def)
qed

lemma step_Handle_facts:
  "sent (world (step loads (Handle t m) s)) = sent (world s)
   \<and> (\<not> connected (world s) \<longrightarrow> \<not> connected (world (step loads (Handle t m) s)))
   \<and> heartbeat_thread (step loads (Handle t m) s) = heartbeat_thread s
   \<and> message_consumer_thread (step loads (Handle t m) s) = message_consumer_thread s"
proof (cases "handle_gateway_message t m (world s)")
  case (Inl e)
  then show ?thesis by simp
next
  case (Inr w')
  from handle_gateway_message_facts[OF Inr] show ?thesis using Inr by simp
qed

lemma step_Consumer_facts:
  "sent (world (step loads (ConsumerStep sock) s)) = sent (world s)
   \<and> (\<not> connected (world s) \<longrightarrow> \<not> connected (world (step loads (ConsumerStep sock) s)))
   \<and> heartbeat_thread (step loads (ConsumerStep sock) s) = heartbeat_thread s"
proof (cases "message_consumer_thread s")
  case AtTest
  then show ?thesis by simp
next
  case InBody
  obtain out rest w' where c: "consumer_body loads sock (world s) = (out, rest, w')"
    by (cases "consumer_body loads sock (world s)")
  from consumer_body_facts[OF c] show ?thesis using InBody c by (cases out) simp_all
next
  case Done
  then show ?thesis by simp
next
  case (Dead e)
  then show ?thesis by simp
qed

lemma step_Heartbeat_facts:
  "message_consumer_thread (step loads (HeartbeatStep tk) s) = message_consumer_thread s
   \<and> (\<not> connected (world s) \<longrightarrow> \<not> connected (world (step loads (HeartbeatStep tk) s)))
   \<and> (heartbeat_thread s \<noteq> InBody \<longrightarrow>
        world (step loads (HeartbeatStep tk) s) = world s
        \<and> (\<not> connected (world s) \<longrightarrow> heartbeat_thread (step loads (HeartbeatStep tk) s) \<noteq> InBody))
   \<and> (heartbeat_thread s = InBody \<longrightarrow>
        heartbeat_thread (step loads (HeartbeatStep tk) s) \<noteq> InBody
        \<and> (\<exists>new. sent (world (step loads (HeartbeatStep tk) s)) = sent (world s) @ new
              \<and> length (heartbeat_frames new) \<le> 1))"
proof (cases "heartbeat_thread s")
  case AtTest
  then show ?thesis by simp
next
  case InBody
  obtain r l' w' where b: "heartbeat_body (interval_s s) tk (last_heartbeat s) (world s) = (r, l', w')"
    by (cases "heartbeat_body (interval_s s) tk (last_heartbeat s) (world s)")
  from heartbeat_body_facts[OF b] have c: "\<not> connected (world s) \<longrightarrow> \<not> connected w'" by simp
  from heartbeat_body_count[OF b] obtain new where
    n: "sent w' = sent (world s) @ new" "length (heartbeat_frames new) \<le> 1" by blast
  have w: "world (step loads (HeartbeatStep tk) s) = w'"
    and t: "heartbeat_thread (step loads (HeartbeatStep tk) s) \<noteq> InBody"
    and m: "message_consumer_thread (step loads (HeartbeatStep tk) s) = message_consumer_thread s"
    using InBody b by (cases r; simp)+
  show ?thesis using InBody c n w t m by auto
next
  case Done
  then show ?thesis by simp
next
  case (Dead e)
  then show ?thesis by simp
qed

lemma step_disconnected:
  assumes "\<not> connected (world s)"
  shows "\<not> connected (world (step loads a s))
   \<and> (heartbeat_thread s \<noteq> InBody \<longrightarrow>
        sent (world (step loads a s)) = sent (world s) \<and> heartbeat_thread (step loads a s) \<noteq> InBody)
   \<and> (\<exists>new. sent (world (step loads a s)) = sent (world s) @ new
          \<and> length (heartbeat_frames new) \<le> 1
          \<and> (new \<noteq> [] \<longrightarrow> heartbeat_thread (step loads a s) \<noteq> InBody))"
proof (cases a)
  case (Handle t m)
  have "sent (world (step loads a s)) = sent (world s) @ []"
    using step_Handle_facts[of loads t m s] Handle by simp
  then show ?thesis
    using step_Handle_facts[of loads t m s] Handle assms
    by (auto simp: heartbeat_frames_simps)
next
  case (HeartbeatStep tk)
  note f = step_Heartbeat_facts[of loads tk s]
  show ?thesis
  proof (cases "heartbeat_thread s = InBody")
    case True
    then show ?thesis using f HeartbeatStep assms by auto
  next
    case False
    then have "sent (world (step loads a s)) = sent (world s) @ []"
      using f HeartbeatStep by simp
    then show ?thesis using f HeartbeatStep assms False by (auto simp: heartbeat_frames_simps)
  qed
next
  case (ConsumerStep sock)
  have "sent (world (step loads a s)) = sent (world s) @ []"
    using step_Consumer_facts[of loads sock s] ConsumerStep by simp
  then show ?thesis
    using step_Consumer_facts[of loads sock s] ConsumerStep assms
    by (auto simp: heartbeat_frames_simps)
qed

lemma run_Cons: "run loads (a # acts) s = run loads acts (step loads a s)"
  by (simp add: run_def)

lemma run_disconnected:
  "\<not> connected (world s) \<Longrightarrow>
   \<not> connected (world (run loads acts s))
   \<and> (\<exists>new. sent (world (run loads acts s)) = sent (world s) @ new
          \<and> length (heartbeat_frames new) \<le> 1
          \<and> (heartbeat_thread s \<noteq> InBody \<longrightarrow> new = []))"
proof (induction acts arbitrary: s)
  case Nil
  have "sent (world s) = sent (world s) @ [] \<and> length (heartbeat_frames []) \<le> 1"
    by (simp add: heartbeat_frames_simps)
  then show ?case using Nil by (auto simp: run_def)
next
  case (Cons a acts)
  let ?s1 = "step loads a s"
  from step_disconnected[OF Cons.prems, of loads a] obtain new1 where
    c1: "\<not> connected (world ?s1)"
    and k1: "heartbeat_thread s \<noteq> InBody \<longrightarrow>
        sent (world ?s1) = sent (world s) \<and> heartbeat_thread ?s1 \<noteq> InBody"
    and n1: "sent (world ?s1) = sent (world s) @ new1" "length (heartbeat_frames new1) \<le> 1"
      "new1 \<noteq> [] \<longrightarrow> heartbeat_thread ?s1 \<noteq> InBody"
    by blast
  from Cons.IH[OF c1] obtain new2 where
    c2: "\<not> connected (world (run loads acts ?s1))"
    and n2: "sent (world (run loads acts ?s1)) = sent (world ?s1) @ new2"
      "length (heartbeat_frames new2) \<le> 1" "heartbeat_thread ?s1 \<noteq> InBody \<longrightarrow> new2 = []"
    by blast
  have e: "sent (world (run loads (a # acts) s)) = sent (world s) @ (new1 @ new2)"
    using n1(1) n2(1) by (simp add: run_Cons)
  have l: "length (heartbeat_frames (new1 @ new2)) \<le> 1"
  proof (cases "new1 = []")
    case True
    then show ?thesis using n2(2) by simp
  next
    case False
    then have "new2 = []" using n1(3) n2(3) by simp
    then show ?thesis using n1(2) by simp
  qed
  have z: "heartbeat_thread s \<noteq> InBody \<longrightarrow> new1 @ new2 = []"
    using k1 n1(1) n2(3) by auto
  show ?case using c2 e l z by (auto simp: run_Cons)
qed

lemma finished_steps_left: "finished t \<longleftrightarrow> steps_left t = 0"
  by (cases t) simp_all

lemma step_heartbeat_rank:
  assumes "\<not> connected (world s)"
  shows "steps_left (heartbeat_thread (step loads a s))
           \<le> steps_left (heartbeat_thread s) - (if is_heartbeat_step a then 1 else 0)"
proof (cases a)
  case (Handle t m)
  then show ?thesis using step_Handle_facts[of loads t m s] by simp
next
  case (HeartbeatStep tk)
  show ?thesis
  proof (cases "heartbeat_thread s")
    case AtTest
    then show ?thesis using HeartbeatStep assms by simp
  next
    case InBody
    obtain r l' w' where b: "heartbeat_body (interval_s s) tk (last_heartbeat s) (world s) = (r, l', w')"
      by (cases "heartbeat_body (interval_s s) tk (last_heartbeat s) (world s)")
    show ?thesis using HeartbeatStep InBody b by (cases r) simp_all
  next
    case Done
    then show ?thesis using HeartbeatStep by simp
  next
    case (Dead e)
    then show ?thesis using HeartbeatStep by simp
  qed
next
  case (ConsumerStep sock)
  then show ?thesis using step_Consumer_facts[of loads sock s] by simp
qed

lemma run_heartbeat_rank:
  "\<not> connected (world s) \<Longrightarrow>
   steps_left (heartbeat_thread (run loads acts s))
     \<le> steps_left (heartbeat_thread s) - length (filter is_heartbeat_step acts)"
proof (induction acts arbitrary: s)
  case Nil
  then show ?case by (simp add: run_def)
next
  case (Cons a acts)
  have c: "\<not> connected (world (step loads a s))"
    using step_disconnected[OF Cons.prems, of loads a] by simp
  from Cons.IH[OF c] step_heartbeat_rank[OF Cons.prems, of loads a]
  show ?case by (simp add: run_Cons split: if_splits)
qed

lemma step_consumer_rank:
  assumes "\<not> connected (world s)"
    and "\<And>sock. a = ConsumerStep sock \<Longrightarrow> fst (read_socket loads sock [] (world s)) \<noteq> Pending"
  shows "steps_left (message_consumer_thread (step loads a s))
           \<le> steps_left (message_consumer_thread s) - (if is_consumer_step a then 1 else 0)"
proof (cases a)
  case (Handle t m)
  then show ?thesis using step_Handle_facts[of loads t m s] by simp
next
  case (HeartbeatStep tk)
  then show ?thesis using step_Heartbeat_facts[of loads tk s] by simp
next
  case (ConsumerStep sock)
  show ?thesis
  proof (cases "message_consumer_thread s")
    case AtTest
    then show ?thesis using ConsumerStep assms(1) by simp
  next
    case InBody
    obtain out rest w' where b: "consumer_body loads sock (world s) = (out, rest, w')"
      by (cases "consumer_body loads sock (world s)")
    have "out \<noteq> Pending"
      using assms(2)[OF ConsumerStep] consumer_body_Pending[of loads sock "world s"] b by simp
    then show ?thesis using ConsumerStep InBody b by (cases out) simp_all
  next
    case Done
    then show ?thesis using ConsumerStep by simp
  next
    case (Dead e)
    then show ?thesis using ConsumerStep by simp
  qed
qed

lemma run_consumer_rank:
  "\<not> connected (world (s :: 'cb session)) \<Longrightarrow>
   \<forall>sock (w :: 'cb world). ConsumerStep sock \<in> set acts \<and> \<not> connected w
      \<longrightarrow> fst (read_socket loads sock [] w) \<noteq> Pending \<Longrightarrow>
   steps_left (message_consumer_thread (run loads acts s))
     \<le> steps_left (message_consumer_thread s) - length (filter is_consumer_step acts)"
proof (induction acts arbitrary: s)
  case Nil
  then show ?case by (simp add: run_def)
next
  case (Cons a acts)
  have c: "\<not> connected (world (step loads a s))"
    using step_disconnected[OF Cons.prems(1), of loads a] by simp
  have r: "\<forall>sock (w :: 'cb world). ConsumerStep sock \<in> set acts \<and> \<not> connected w
      \<longrightarrow> fst (read_socket loads sock [] w) \<noteq> Pending"
    using Cons.prems(2) by (meson list.set_intros(2))
  have h: "\<And>sock. a = ConsumerStep sock \<Longrightarrow> fst (read_socket loads sock [] (world s)) \<noteq> Pending"
    using Cons.prems by simp
  have k: "steps_left (message_consumer_thread (step loads a s))
           \<le> steps_left (message_consumer_thread s) - (if is_consumer_step a then 1 else 0)"
    by (rule step_consumer_rank[OF Cons.prems(1)]) (rule h)
  from Cons.IH[OF c r] k
  show ?case by (simp add: run_Cons split: if_splits)
qed

lemma steps_left_le_2: "steps_left t \<le> 2"
  by (cases t) simp_all

lemma run_heartbeat_finished:
  assumes "\<not> connected (world s)" "2 \<le> length (filter is_heartbeat_step acts)"
  shows "finished (heartbeat_thread (run loads acts s))"
  using run_heartbeat_rank[OF assms(1), of loads acts] assms(2)
    steps_left_le_2[of "heartbeat_thread s"]
  by (simp add: finished_steps_left)

lemma run_consumer_finished:
  assumes "\<not> connected (world (s :: 'cb session))" "2 \<le> length (filter is_consumer_step acts)"
    "\<forall>sock (w :: 'cb world). ConsumerStep sock \<in> set acts \<and> \<not> connected w
      \<longrightarrow> fst (read_socket loads sock [] w) \<noteq> Pending"
  shows "finished (message_consumer_thread (run loads acts s))"
  using run_consumer_rank[OF assms(1) assms(3)] assms(2)
    steps_left_le_2[of "message_consumer_thread s"]
  by (simp add: finished_steps_left)

lemma disconnect_returns:
  assumes "2 \<le> length (filter is_heartbeat_step acts)"
    "2 \<le> length (filter is_consumer_step acts)"
    "\<forall>sock (w :: 'cb world). ConsumerStep sock \<in> set acts \<and> \<not> connected w
      \<longrightarrow> fst (read_socket loads sock [] w) \<noteq> Pending"
  shows "\<exists>s2. disconnect loads acts (s :: 'cb session) = Some s2 \<and> \<not> connected (world s2)
           \<and> finished (heartbeat_thread s2) \<and> finished (message_consumer_thread s2)"
proof -
  let ?s = "s\<lparr> world := (world s)\<lparr> connected := False \<rparr> \<rparr>"
  have c: "\<not> connected (world ?s)" by simp
  have f: "finished (heartbeat_thread (run loads acts ?s))"
    by (rule run_heartbeat_finished[OF c assms(1)])
  have g: "finished (message_consumer_thread (run loads acts ?s))"
    by (rule run_consumer_finished[OF c assms(2) assms(3)])
  have d: "\<not> connected (world (run loads acts ?s))"
    using run_disconnected[OF c, of loads acts] by simp
  show ?thesis using f g d by (simp add: disconnect_def Let_def)
qed

lemma disconnect_waits_for_the_threads:
  "disconnect loads [] (start_threads start w) = None"
  by (simp add: disconnect_def run_def start_threads_def)

lemma disconnect_waits_for_a_read:
  "disconnect loads [ConsumerStep [], HeartbeatStep tk, ConsumerStep [], HeartbeatStep tk, ConsumerStep []]
     (step loads (ConsumerStep []) (start_threads start w)) = None"
  by (simp add: disconnect_def run_def start_threads_def consumer_body_def)

lemma step_heartbeat_in_body_sent:
  assumes "heartbeat_thread s = InBody"
    "heartbeat_due (interval_s s) (last_heartbeat s) (tick_now tk)"
    "tick_send tk = SendOk" "tick_status_send tk = SendOk"
  shows "sent (world (step loads (HeartbeatStep tk) s))
           = sent (world s) @ [heartbeat_frame (sequence (world s)),
                status_frame (''Ping: '' @ str_int (ping (world s)) @ ''ms'')]"
proof -
  from heartbeat_body_due_ok[OF assms(2,3), of "world s"] obtain r w4 where
    b: "heartbeat_body (interval_s s) tk (last_heartbeat s) (world s) = (r, tick_after tk, w4)"
    and n: "sent w4 = sent (world s) @ heartbeat_frame (sequence (world s)) #
             (if tick_status_send tk = SendOk
              then [status_frame (''Ping: '' @ str_int (ping (world s)) @ ''ms'')] else [])"
    by blast
  show ?thesis using assms(1,4) b n by (cases r) simp_all
qed

lemma step_invalid_session:
  "getitem gateway_message ''op'' = Inr (PInt 9) \<Longrightarrow>
   step loads (Handle monotonic gateway_message) s =
     s\<lparr> world := (world s)\<lparr> connected := False,
             logger := logger (world s) @
               [(''WARNING'', ''Connection terminated with Invalid Session ID'')] \<rparr> \<rparr>"
  by (simp add: handle_invalid_session)

lemma run_Nil: "run loads [] s = s"
  by (simp add: run_def)

section \<open>The claims\<close>

subsection \<open>C9: \<open>subscribe\<close> appends in insertion order\<close>

text \<open>
  Claim C9. For every key of the registry, \<open>subscribe\<close> appends the callback to the key's
  list, making a one-element list when the key is new; subscribing \<open>cbA\<close> and then \<open>cbB\<close>
  for \<open>MESSAGE_CREATE\<close> on a registry without that key gives the subscribers \<open>[cbA, cbB]\<close>;
  any number of subscriptions for a key are kept in the order they were made, and that
  is the sequence an event decoded by \<open>from_message\<close> for that key carries. (The key is
  the member of \<open>events\<close> that \<open>from_message\<close> looks up for the frame's event name.)
\<close>

theorem subscribe_appends_in_order:
  "subscribers (subscribe k cb w) k = subscribers w k @ [cb]
   \<and> (subscriptions w k = None \<longrightarrow> subscribers (subscribe k cb w) k = [cb])
   \<and> subscribers (fold (subscribe k) cbs w) k = subscribers w k @ cbs
   \<and> (subscriptions w MESSAGE_CREATE = None \<longrightarrow>
        subscribers (subscribe MESSAGE_CREATE cbB (subscribe MESSAGE_CREATE cbA w)) MESSAGE_CREATE
          = [cbA, cbB])
   \<and> (from_message msg (fold (subscribe k) cbs w) = Inr (ev, w')
        \<and> getitem msg ''t'' = Inr (PStr tname) \<and> getattr_events tname = Inr (PEnum k)
        \<longrightarrow> event_subscriptions w' ev = subscribers w k @ cbs)"
proof -
  have a: "subscribers (subscribe k cb w) k = subscribers w k @ [cb]"
    by (rule subscribers_subscribe)
  have b: "subscriptions w k = None \<longrightarrow> subscribers (subscribe k cb w) k = [cb]"
    by (simp add: subscribers_subscribe) (simp add: subscribers_def)
  have c: "subscribers (fold (subscribe k) cbs w) k = subscribers w k @ cbs"
    by (rule subscribers_fold_subscribe)
  have d: "subscriptions w MESSAGE_CREATE = None \<longrightarrow>
        subscribers (subscribe MESSAGE_CREATE cbB (subscribe MESSAGE_CREATE cbA w)) MESSAGE_CREATE
          = [cbA, cbB]"
    by (simp add: subscribers_subscribe) (simp add: subscribers_def)
  have e: "from_message msg (fold (subscribe k) cbs w) = Inr (ev, w')
        \<and> getitem msg ''t'' = Inr (PStr tname) \<and> getattr_events tname = Inr (PEnum k)
        \<longrightarrow> event_subscriptions w' ev = subscribers w k @ cbs"
    using event_subscriptions_from_message[of msg "fold (subscribe k) cbs w" ev w' tname k]
    by (simp add: subscribers_fold_subscribe)
  show ?thesis using a b c d e by blast
qed

theorem subscribe_appends_in_order_witness:
  "subscriptions (init 41250 0 :: string world) MESSAGE_CREATE = None
   \<and> from_message message_create_frame
        (fold (subscribe MESSAGE_CREATE) [''cbA'', ''cbB''] (init 41250 0))
      = Inr (new_event_of [(''content'', PStr ''hi'')] MESSAGE_CREATE (PInt 5) 0,
             fold (subscribe MESSAGE_CREATE) [''cbA'', ''cbB''] (init 41250 0))
   \<and> getitem message_create_frame ''t'' = Inr (PStr ''MESSAGE_CREATE'')
   \<and> getattr_events ''MESSAGE_CREATE'' = Inr (PEnum MESSAGE_CREATE)
   \<and> subscribers (subscribe MESSAGE_CREATE ''cbB'' (subscribe MESSAGE_CREATE ''cbA'' (init 41250 0)))
        MESSAGE_CREATE = [''cbA'', ''cbB'']
   \<and> event_subscriptions (fold (subscribe MESSAGE_CREATE) [''cbA'', ''cbB''] (init 41250 0))
        (new_event_of [(''content'', PStr ''hi'')] MESSAGE_CREATE (PInt 5) 0) = [''cbA'', ''cbB'']"
proof -
  let ?wi = "init 41250 0 :: string world"
  let ?w = "fold (subscribe MESSAGE_CREATE) [''cbA'', ''cbB''] ?wi"
  let ?ev = "new_event_of [(''content'', PStr ''hi'')] MESSAGE_CREATE (PInt 5) 0"
  have h0: "subscriptions ?wi MESSAGE_CREATE = None" by (simp add: init_def)
  have "subscriptions ?w MESSAGE_CREATE = Some 0"
    by (simp add: subscribe_def init_def)
  then have h1: "from_message message_create_frame ?w = Inr (?ev, ?w)"
    by (simp only: from_message_message_create_frame option.case)
  have h2: "getitem message_create_frame ''t'' = Inr (PStr ''MESSAGE_CREATE'')"
    by (simp add: message_create_frame_def)
  have h3: "subscribers ?wi MESSAGE_CREATE = []" by (simp add: subscribers_def init_def)
  show ?thesis
    using subscribe_appends_in_order[where k = MESSAGE_CREATE and cb = "''cbA''" and w = ?wi
        and cbs = "[''cbA'', ''cbB'']" and cbA = "''cbA''" and cbB = "''cbB''"
        and msg = message_create_frame and ev = ?ev and w' = ?w and tname = "''MESSAGE_CREATE''"]
      h0 h1 h2 h3 getattr_events_MESSAGE_CREATE
    by simp
qed

subsection \<open>C1: a decoded event carries the registry's own list\<close>

text \<open>
  Claim C1, as amended. For a frame whose event name is the member \<open>k\<close> of \<open>events\<close>,
  the subscriber sequence of the event that \<open>from_message\<close> decodes is the current list of
  the registry for \<open>k\<close>. When \<open>k\<close> has a list, the event holds a reference to that very
  list object and no copy: a later \<open>subscribe\<close> or \<open>unsubscribe\<close> for \<open>k\<close> shows through the
  already decoded event. When \<open>k\<close> has no list, the event holds a new empty list that
  later subscriptions do not reach. An event decoded after \<open>unsubscribe(k, cb)\<close> has
  returned carries the list without the first occurrence of \<open>cb\<close>, so it does not deliver
  to \<open>cb\<close> when \<open>cb\<close> was registered at most once.
\<close>

theorem event_subscriptions_alias_registry:
  assumes "getitem msg ''t'' = Inr (PStr tname)" and "getattr_events tname = Inr (PEnum k)"
  shows
   "(from_message msg w = Inr (ev, w1) \<longrightarrow> event_subscriptions w1 ev = subscribers w k)
    \<and> (from_message msg w = Inr (ev, w1) \<and> subscriptions w k = Some a \<longrightarrow>
         getattr ev ''subscriptions'' = Inr (PRef a) \<and> w1 = w
         \<and> event_subscriptions (subscribe k cb w1) ev = subscribers w k @ [cb])
    \<and> (from_message msg w = Inr (ev, w1) \<and> subscriptions w k = Some a
         \<and> unsubscribe k cb w1 = Inr w2 \<longrightarrow>
         event_subscriptions w2 ev = remove1 cb (subscribers w k))
    \<and> (from_message msg w = Inr (ev, w1) \<and> subscriptions w k = None \<longrightarrow>
         event_subscriptions w1 ev = [] \<and> event_subscriptions (subscribe k cb w1) ev = [])
    \<and> (unsubscribe k cb w = Inr w2 \<and> from_message msg w2 = Inr (ev, w3) \<longrightarrow>
         event_subscriptions w3 ev = remove1 cb (subscribers w k))
    \<and> (unsubscribe k cb w = Inr w2 \<and> from_message msg w2 = Inr (ev, w3)
         \<and> count_list (subscribers w k) cb \<le> 1 \<longrightarrow>
         cb \<notin> set (event_subscriptions w3 ev))"
proof -
  have p1: "from_message msg w = Inr (ev, w1) \<longrightarrow> event_subscriptions w1 ev = subscribers w k"
    using event_subscriptions_from_message assms by blast
  have p2: "from_message msg w = Inr (ev, w1) \<and> subscriptions w k = Some a \<longrightarrow>
         getattr ev ''subscriptions'' = Inr (PRef a) \<and> w1 = w
         \<and> event_subscriptions (subscribe k cb w1) ev = subscribers w k @ [cb]"
  proof
    assume h: "from_message msg w = Inr (ev, w1) \<and> subscriptions w k = Some a"
    then have r: "getattr ev ''subscriptions'' = Inr (PRef a)" and e: "w1 = w"
      using from_message_registered assms by blast+
    have "subscriptions (subscribe k cb w) k = Some a"
      using h by (simp add: subscribe_def)
    then have "event_subscriptions (subscribe k cb w) ev = subscribers (subscribe k cb w) k"
      using r by (rule event_subscriptions_registered[rotated])
    then show "getattr ev ''subscriptions'' = Inr (PRef a) \<and> w1 = w
         \<and> event_subscriptions (subscribe k cb w1) ev = subscribers w k @ [cb]"
      using r e by (simp add: subscribers_subscribe)
  qed
  have p3: "from_message msg w = Inr (ev, w1) \<and> subscriptions w k = Some a
         \<and> unsubscribe k cb w1 = Inr w2 \<longrightarrow>
         event_subscriptions w2 ev = remove1 cb (subscribers w k)"
  proof
    assume h: "from_message msg w = Inr (ev, w1) \<and> subscriptions w k = Some a
         \<and> unsubscribe k cb w1 = Inr w2"
    then have r: "getattr ev ''subscriptions'' = Inr (PRef a)" and e: "w1 = w"
      using from_message_registered assms by blast+
    have u: "unsubscribe k cb w = Inr w2" using h e by simp
    have "subscriptions w2 k = Some a" using unsubscribe_Inr(2)[OF u] h by simp
    then have "event_subscriptions w2 ev = subscribers w2 k"
      using r by (rule event_subscriptions_registered[rotated])
    then show "event_subscriptions w2 ev = remove1 cb (subscribers w k)"
      using unsubscribe_Inr(1)[OF u] by simp
  qed
  have p4: "from_message msg w = Inr (ev, w1) \<and> subscriptions w k = None \<longrightarrow>
         event_subscriptions w1 ev = [] \<and> event_subscriptions (subscribe k cb w1) ev = []"
  proof
    assume h: "from_message msg w = Inr (ev, w1) \<and> subscriptions w k = None"
    then have r: "getattr ev ''subscriptions'' = Inr (PRef (next_addr w))"
      and e: "w1 = w\<lparr> heap := (heap w)(next_addr w \<mapsto> []), next_addr := Suc (next_addr w) \<rparr>"
      using from_message_unregistered assms by blast+
    show "event_subscriptions w1 ev = [] \<and> event_subscriptions (subscribe k cb w1) ev = []"
      using r h by (simp add: e event_subscriptions_def deref_def subscribe_def)
  qed
  have p5: "unsubscribe k cb w = Inr w2 \<and> from_message msg w2 = Inr (ev, w3) \<longrightarrow>
         event_subscriptions w3 ev = remove1 cb (subscribers w k)"
    using event_subscriptions_from_message[of msg w2 ev w3 tname k] assms unsubscribe_Inr(1)
    by fastforce
  have p6: "unsubscribe k cb w = Inr w2 \<and> from_message msg w2 = Inr (ev, w3)
         \<and> count_list (subscribers w k) cb \<le> 1 \<longrightarrow>
         cb \<notin> set (event_subscriptions w3 ev)"
    using p5 not_in_remove1_count[of "subscribers w k" cb] by auto
  show ?thesis using p1 p2 p3 p4 p5 p6 by blast
qed

theorem event_subscriptions_alias_registry_witness:
  "getitem message_create_frame ''t'' = Inr (PStr ''MESSAGE_CREATE'')
   \<and> getattr_events ''MESSAGE_CREATE'' = Inr (PEnum MESSAGE_CREATE)
   \<and> from_message message_create_frame (subscribe MESSAGE_CREATE ''cbA'' (init 41250 0))
       = Inr (new_event_of [(''content'', PStr ''hi'')] MESSAGE_CREATE (PInt 5) 0,
              subscribe MESSAGE_CREATE ''cbA'' (init 41250 0))
   \<and> subscriptions (subscribe MESSAGE_CREATE ''cbA'' (init 41250 0)) MESSAGE_CREATE = Some 0
   \<and> count_list (subscribers (subscribe MESSAGE_CREATE ''cbA'' (init 41250 0)) MESSAGE_CREATE) ''cbA'' \<le> 1
   \<and> unsubscribe MESSAGE_CREATE ''cbA'' (subscribe MESSAGE_CREATE ''cbA'' (init 41250 0))
       = Inr ((subscribe MESSAGE_CREATE ''cbA'' (init 41250 0))\<lparr> heap := [0 \<mapsto> []] \<rparr>)
   \<and> from_message message_create_frame
         ((subscribe MESSAGE_CREATE ''cbA'' (init 41250 0))\<lparr> heap := [0 \<mapsto> []] \<rparr>)
       = Inr (new_event_of [(''content'', PStr ''hi'')] MESSAGE_CREATE (PInt 5) 0,
              (subscribe MESSAGE_CREATE ''cbA'' (init 41250 0))\<lparr> heap := [0 \<mapsto> []] \<rparr>)
   \<and> event_subscriptions (subscribe MESSAGE_CREATE ''cbB'' (subscribe MESSAGE_CREATE ''cbA'' (init 41250 0)))
         (new_event_of [(''content'', PStr ''hi'')] MESSAGE_CREATE (PInt 5) 0) = [''cbA'', ''cbB'']
   \<and> ''cbA'' \<notin> set (event_subscriptions
         ((subscribe MESSAGE_CREATE ''cbA'' (init 41250 0))\<lparr> heap := [0 \<mapsto> []] \<rparr>)
         (new_event_of [(''content'', PStr ''hi'')] MESSAGE_CREATE (PInt 5) 0))"
proof -
  let ?wa = "subscribe MESSAGE_CREATE ''cbA'' (init 41250 0) :: string world"
  let ?wu = "?wa\<lparr> heap := [0 \<mapsto> []] \<rparr>"
  let ?ev = "new_event_of [(''content'', PStr ''hi'')] MESSAGE_CREATE (PInt 5) 0"
  have t: "getitem message_create_frame ''t'' = Inr (PStr ''MESSAGE_CREATE'')"
    by (simp add: message_create_frame_def)
  have f1: "from_message message_create_frame ?wa = Inr (?ev, ?wa)"
    by (simp only: from_message_message_create_frame wA_facts option.case)
  have u: "unsubscribe MESSAGE_CREATE ''cbA'' ?wa = Inr ?wu"
    by (simp add: unsubscribe_registered[OF wA_facts(1)] wA_facts(2))
       (simp add: subscribe_def init_def)
  have "subscriptions ?wu MESSAGE_CREATE = Some 0"
    by (simp add: wA_facts)
  then have f2: "from_message message_create_frame ?wu = Inr (?ev, ?wu)"
    by (simp only: from_message_message_create_frame option.case)
  have c: "count_list (subscribers ?wa MESSAGE_CREATE) ''cbA'' \<le> 1"
    by (simp add: wA_facts)
  show ?thesis
    using event_subscriptions_alias_registry[OF t getattr_events_MESSAGE_CREATE,
        where w = ?wa and ev = ?ev and ?w1.0 = ?wa and a = 0 and cb = "''cbB''"]
      event_subscriptions_alias_registry[OF t getattr_events_MESSAGE_CREATE,
        where w = ?wa and ev = ?ev and ?w2.0 = ?wu and ?w3.0 = ?wu and cb = "''cbA''"]
      t getattr_events_MESSAGE_CREATE f1 u f2 c wA_facts
    by simp
qed

text \<open>
  The claim as stated fails. The event decoded while \<open>cbA\<close> alone is subscribed has the
  subscribers \<open>[cbA]\<close>, and after a later \<open>subscribe(MESSAGE_CREATE, cbB)\<close> the same event
  has \<open>[cbA, cbB]\<close>: it is no snapshot. And with \<open>cbA\<close> subscribed twice,
  \<open>unsubscribe(MESSAGE_CREATE, cbA)\<close> returns and leaves the registry that decodes events
  still delivered to \<open>cbA\<close>.
\<close>

theorem event_subscriptions_snapshot_counterexample:
  "from_message message_create_frame (subscribe MESSAGE_CREATE ''cbA'' (init 41250 0))
     = Inr (new_event_of [(''content'', PStr ''hi'')] MESSAGE_CREATE (PInt 5) 0,
            subscribe MESSAGE_CREATE ''cbA'' (init 41250 0))
   \<and> event_subscriptions (subscribe MESSAGE_CREATE ''cbA'' (init 41250 0))
        (new_event_of [(''content'', PStr ''hi'')] MESSAGE_CREATE (PInt 5) 0) = [''cbA'']
   \<and> event_subscriptions
        (subscribe MESSAGE_CREATE ''cbB'' (subscribe MESSAGE_CREATE ''cbA'' (init 41250 0)))
        (new_event_of [(''content'', PStr ''hi'')] MESSAGE_CREATE (PInt 5) 0) = [''cbA'', ''cbB'']
   \<and> unsubscribe MESSAGE_CREATE ''cbA''
        (subscribe MESSAGE_CREATE ''cbA'' (subscribe MESSAGE_CREATE ''cbA'' (init 41250 0)))
     = Inr ((subscribe MESSAGE_CREATE ''cbA'' (init 41250 0)) :: string world)
   \<and> ''cbA'' \<in> set (event_subscriptions (subscribe MESSAGE_CREATE ''cbA'' (init 41250 0))
        (new_event_of [(''content'', PStr ''hi'')] MESSAGE_CREATE (PInt 5) 0))"
proof -
  let ?wa = "subscribe MESSAGE_CREATE ''cbA'' (init 41250 0) :: string world"
  let ?ev = "new_event_of [(''content'', PStr ''hi'')] MESSAGE_CREATE (PInt 5) 0"
  have f1: "from_message message_create_frame ?wa = Inr (?ev, ?wa)"
    by (simp only: from_message_message_create_frame wA_facts option.case)
  have e1: "event_subscriptions ?wa ?ev = [''cbA'']"
    by (simp add: event_subscriptions_def getattr_new_event_of deref_def subscribe_def init_def)
  have e2: "event_subscriptions (subscribe MESSAGE_CREATE ''cbB'' ?wa) ?ev = [''cbA'', ''cbB'']"
    by (simp add: event_subscriptions_def getattr_new_event_of deref_def subscribe_def init_def)
  have u: "unsubscribe MESSAGE_CREATE ''cbA'' (subscribe MESSAGE_CREATE ''cbA'' ?wa) = Inr ?wa"
    by (simp add: unsubscribe_def subscribe_def init_def)
  show ?thesis using f1 e1 e2 u by simp
qed

subsection \<open>C3: a Dispatch frame submits one task per subscriber\<close>



subsection \<open>C5: \<open>unsubscribe\<close> of a callback that is not subscribed\<close>

text \<open>
  Claim C5 says that \<open>unsubscribe\<close> is a no-op whenever the callback is absent. The code
  returns with the registry unchanged when the key has no list; when the key has a list
  that does not contain the callback, \<^verbatim>\<open>list.remove\<close> raises \<^verbatim>\<open>ValueError\<close>. So does a second
  \<open>unsubscribe\<close> of a callback that was subscribed once: the first leaves the key with an
  empty list.
\<close>

theorem unsubscribe_absent_callback_raises:
  "unsubscribe MESSAGE_CREATE ''cbB'' (init 41250 0) = Inr (init 41250 0)
   \<and> unsubscribe MESSAGE_CREATE ''cbB'' (subscribe MESSAGE_CREATE ''cbA'' (init 41250 0))
       = Inl ValueError
   \<and> unsubscribe MESSAGE_CREATE ''cbA'' (subscribe MESSAGE_CREATE ''cbA'' (init 41250 0))
       = Inr ((subscribe MESSAGE_CREATE ''cbA'' (init 41250 0))\<lparr> heap := [0 \<mapsto> []] \<rparr>)
   \<and> unsubscribe MESSAGE_CREATE ''cbA''
       ((subscribe MESSAGE_CREATE ''cbA'' (init 41250 0))\<lparr> heap := [0 \<mapsto> []] \<rparr>)
       = Inl ValueError"
  by (simp add: unsubscribe_def subscribe_def init_def)

subsection \<open>C4: the latency stored on a heartbeat acknowledgement\<close>

text \<open>
  Claim C4 says that the latency stored when a HeartbeatAck is handled is the full time
  since the heartbeat was sent, in milliseconds, also for a second or more. The code
  reads \<^verbatim>\<open>timedelta.microseconds\<close>, the microsecond component, which leaves the whole seconds
  out: an acknowledgement handled 1.5 seconds after the send (\<open>ping_start\<close> 10, monotonic
  clock 11.5) stores 500 and not 1500, and one handled after exactly a second stores 0.
\<close>

theorem heartbeat_ack_latency_drops_whole_seconds:
  "handle_gateway_message (23 / 2) (PDict [(''op'', PInt 11)])
       ((init 41250 10)\<lparr> connected := True \<rparr>)
     = Inr ((init 41250 10)\<lparr> connected := True, ping := 500 \<rparr>)
   \<and> round_half_even ((23 / 2 - 10) * 1000) = 1500
   \<and> measure_ping (23 / 2) 10 = 500
   \<and> measure_ping 11 10 = 0"
  by (simp add: handle_gateway_message_def init_def measure_ping_def timedelta_microseconds_def
        round_half_even_def Let_def)

subsection \<open>C6: when the heartbeat loop sends\<close>

text \<open>
  Claim C6, as amended. An iteration of the heartbeat loop sends a heartbeat exactly
  when the time since the last send is at least the interval minus one time unit:
  otherwise the iteration changes nothing, and iterations that are not due are passed
  over. With an interval of 41.25 time units the first send is made by the first
  iteration that reads the clock 40.25 time units or more after the start, not before;
  for a loop that ticks once per time unit from the start, that is the iteration at 41
  time units, and the iterations at 0 to 40 send nothing.
\<close>

theorem heartbeat_sends_when_due:
  "(\<not> heartbeat_due i lst (tick_now tk) \<longrightarrow> heartbeat_body i tk lst w = (None, lst, w))
   \<and> (heartbeat_due i lst (tick_now tk) \<and> tick_send tk = SendOk \<longrightarrow>
        (\<exists>r w4 rest. heartbeat_body i tk lst w = (r, tick_after tk, w4)
           \<and> sent w4 = sent w @ heartbeat_frame (sequence w) # rest))
   \<and> (heartbeat_due i lst t \<longleftrightarrow> i - 1 \<le> t - lst)
   \<and> ((\<forall>tk \<in> set pre. tick_now tk - lst < i - 1) \<longrightarrow>
        heartbeat_loop i (pre @ ticks) lst w = heartbeat_loop i ticks lst w
        \<and> snd (snd (heartbeat_loop i pre lst w)) = w)
   \<and> (connected w \<and> heartbeat_interval w = 41250
        \<and> (\<forall>tk \<in> set pre. tick_now tk - start < 161 / 4) \<and> 161 / 4 \<le> tick_now tk - start
        \<and> tick_send tk = SendOk \<longrightarrow>
        sent (snd (snd (heartbeat start pre w))) = sent w
        \<and> (\<exists>rest. sent (snd (snd (heartbeat start (pre @ [tk]) w)))
              = sent w @ heartbeat_frame (sequence w) # rest))
   \<and> (connected w \<and> heartbeat_interval w = 41250 \<longrightarrow>
        sent (snd (snd (heartbeat start (map (unit_tick start) [0..<41]) w))) = sent w
        \<and> sent (snd (snd (heartbeat start (map (unit_tick start) [0..<42]) w)))
            = sent w @ [heartbeat_frame (sequence w),
                        status_frame (''Ping: '' @ str_int (ping w) @ ''ms'')])"
proof -
  have p1: "\<not> heartbeat_due i lst (tick_now tk) \<longrightarrow> heartbeat_body i tk lst w = (None, lst, w)"
    by (simp add: heartbeat_body_not_due)
  have p2: "heartbeat_due i lst (tick_now tk) \<and> tick_send tk = SendOk \<longrightarrow>
        (\<exists>r w4 rest. heartbeat_body i tk lst w = (r, tick_after tk, w4)
           \<and> sent w4 = sent w @ heartbeat_frame (sequence w) # rest)"
    using heartbeat_body_due_ok[of i lst tk w] by blast
  have p3: "heartbeat_due i lst t \<longleftrightarrow> i - 1 \<le> t - lst"
    by (simp add: heartbeat_due_def)
  have p4: "(\<forall>tk \<in> set pre. tick_now tk - lst < i - 1) \<longrightarrow>
        heartbeat_loop i (pre @ ticks) lst w = heartbeat_loop i ticks lst w
        \<and> snd (snd (heartbeat_loop i pre lst w)) = w"
  proof
    assume "\<forall>tk \<in> set pre. tick_now tk - lst < i - 1"
    then have nd: "\<forall>tk \<in> set pre. \<not> heartbeat_due i lst (tick_now tk)"
      by (auto simp: heartbeat_due_def)
    show "heartbeat_loop i (pre @ ticks) lst w = heartbeat_loop i ticks lst w
        \<and> snd (snd (heartbeat_loop i pre lst w)) = w"
      using heartbeat_loop_skip[OF nd, of ticks w] heartbeat_loop_not_due_sent[OF nd, of w] by (intro conjI)
  qed
  define w0 where "w0 = w\<lparr> logger := logger w @
             [(''DEBUG'', ''Spawning heartbeat thread at interval: '' @ str_int (heartbeat_interval w))] \<rparr>"
  have w0: "sent w0 = sent w" "sequence w0 = sequence w" "connected w0 = connected w" "ping w0 = ping w"
    by (simp_all add: w0_def)
  have hb: "heartbeat start tks w = heartbeat_loop (of_int (heartbeat_interval w) / 1000) tks start w0" for tks
    by (simp add: heartbeat_def w0_def)
  have p5: "connected w \<and> heartbeat_interval w = 41250
        \<and> (\<forall>tk \<in> set pre. tick_now tk - start < 161 / 4) \<and> 161 / 4 \<le> tick_now tk - start
        \<and> tick_send tk = SendOk \<longrightarrow>
        sent (snd (snd (heartbeat start pre w))) = sent w
        \<and> (\<exists>rest. sent (snd (snd (heartbeat start (pre @ [tk]) w)))
              = sent w @ heartbeat_frame (sequence w) # rest)"
  proof
    assume h: "connected w \<and> heartbeat_interval w = 41250
        \<and> (\<forall>tk \<in> set pre. tick_now tk - start < 161 / 4) \<and> 161 / 4 \<le> tick_now tk - start
        \<and> tick_send tk = SendOk"
    then have nd: "\<forall>tk \<in> set pre. \<not> heartbeat_due (of_int 41250 / 1000) start (tick_now tk)"
      by (auto simp: heartbeat_due_def)
    have du: "heartbeat_due (of_int 41250 / 1000) start (tick_now tk)"
      using h by (simp add: heartbeat_due_def)
    have c: "connected w0" "tick_send tk = SendOk" using h w0 by simp_all
    have a: "sent (snd (snd (heartbeat start pre w))) = sent w"
      using heartbeat_loop_not_due_sent[OF nd, of w0] h w0 by (simp add: hb)
    have "sent (snd (snd (heartbeat start (pre @ [tk]) w)))
              = sent w @ heartbeat_frame (sequence w) #
                 (if tick_status_send tk = SendOk
                  then [status_frame (''Ping: '' @ str_int (ping w) @ ''ms'')] else [])"
      using heartbeat_first_send[OF c(1) nd du c(2)] h w0 by (simp add: hb)
    then show "sent (snd (snd (heartbeat start pre w))) = sent w
        \<and> (\<exists>rest. sent (snd (snd (heartbeat start (pre @ [tk]) w)))
              = sent w @ heartbeat_frame (sequence w) # rest)"
      using a by blast
  qed
  have p6: "connected w \<and> heartbeat_interval w = 41250 \<longrightarrow>
        sent (snd (snd (heartbeat start (map (unit_tick start) [0..<41]) w))) = sent w
        \<and> sent (snd (snd (heartbeat start (map (unit_tick start) [0..<42]) w)))
            = sent w @ [heartbeat_frame (sequence w),
                        status_frame (''Ping: '' @ str_int (ping w) @ ''ms'')]"
    using heartbeat_unit_ticks[of w start] by blast
  show ?thesis using p1 p2 p3 p4 p5 p6 by blast
qed

theorem heartbeat_sends_when_due_witness:
  "heartbeat_due (165 / 4) 0 (tick_now (unit_tick 0 41)) \<and> tick_send (unit_tick 0 41) = SendOk
   \<and> \<not> heartbeat_due (165 / 4) 0 (tick_now (unit_tick 0 40))
   \<and> heartbeat_body (165 / 4) (unit_tick 0 40) 0 ((init 41250 0 :: string world)\<lparr> connected := True \<rparr>)
       = (None, 0, (init 41250 0)\<lparr> connected := True \<rparr>)
   \<and> tick_now (unit_tick 0 40) - 0 < 165 / 4 - (1 :: real)
   \<and> connected ((init 41250 0 :: string world)\<lparr> connected := True \<rparr>)
   \<and> heartbeat_interval ((init 41250 0 :: string world)\<lparr> connected := True \<rparr>) = 41250
   \<and> 161 / 4 \<le> tick_now (unit_tick 0 41) - 0
   \<and> sent (snd (snd (heartbeat 0 (map (unit_tick 0) [0..<41])
        ((init 41250 0 :: string world)\<lparr> connected := True \<rparr>)))) = []
   \<and> sent (snd (snd (heartbeat 0 (map (unit_tick 0) [0..<42])
        ((init 41250 0 :: string world)\<lparr> connected := True \<rparr>))))
       = [heartbeat_frame (PInt 0), status_frame ''Ping: -1ms'']"
proof -
  let ?wc = "(init 41250 0 :: string world)\<lparr> connected := True \<rparr>"
  let ?pre = "map (unit_tick 0) [0..<41]"
  have c: "connected ?wc" "heartbeat_interval ?wc = 41250" "sent ?wc = []"
    "sequence ?wc = PInt 0" "ping ?wc = - 1"
    by (simp_all add: init_def)
  have d: "heartbeat_due (165 / 4) 0 (tick_now (unit_tick 0 41))" "tick_send (unit_tick 0 41) = SendOk"
    "\<not> heartbeat_due (165 / 4) 0 (tick_now (unit_tick 0 40))"
    "161 / 4 \<le> tick_now (unit_tick 0 41) - 0"
    by (simp_all add: unit_tick_simps heartbeat_due_def)
  have p: "tick_now (unit_tick 0 40) - 0 < 165 / 4 - (1 :: real)"
    by (simp add: unit_tick_simps)
  note T1 = heartbeat_sends_when_due[where i = "165 / 4" and lst = 0 and tk = "unit_tick 0 40"
      and w = ?wc and t = 41 and pre = ?pre and ticks = "[]" and start = 0]
  note T2 = heartbeat_sends_when_due[where i = "165 / 4" and lst = 0 and tk = "unit_tick 0 41"
      and w = ?wc and t = 41 and pre = ?pre and ticks = "[]" and start = 0]
  have b: "heartbeat_body (165 / 4) (unit_tick 0 40) 0 ?wc = (None, 0, ?wc)"
    using T1[THEN conjunct1] d(3) by blast
  have s: "sent (snd (snd (heartbeat 0 ?pre ?wc))) = sent ?wc
        \<and> sent (snd (snd (heartbeat 0 (map (unit_tick 0) [0..<42]) ?wc)))
            = sent ?wc @ [heartbeat_frame (sequence ?wc),
                        status_frame (''Ping: '' @ str_int (ping ?wc) @ ''ms'')]"
    using T2[THEN conjunct2, THEN conjunct2, THEN conjunct2, THEN conjunct2, THEN conjunct2] c(1,2)
    by blast
  have s1: "sent (snd (snd (heartbeat 0 ?pre ?wc))) = []"
    using s c(3) by simp
  have s2: "sent (snd (snd (heartbeat 0 (map (unit_tick 0) [0..<42]) ?wc)))
       = [heartbeat_frame (PInt 0), status_frame ''Ping: -1ms'']"
    using s by (simp only: c str_int_minus_one) simp
  show ?thesis using b c(1,2) d p s1 s2 by (intro conjI)
qed

text \<open>
  The claim as stated fails: with one tick per time unit after the start and an
  interval of 41.25, nothing has been sent when the iterations up to time 40 are over,
  the last one at or before 40.25; the first heartbeat is written by the iteration at
  time 41.
\<close>

theorem first_heartbeat_after_threshold_counterexample:
  "sent (snd (snd (heartbeat 0 (map (unit_tick 0) [0..<41])
        ((init 41250 0 :: string world)\<lparr> connected := True \<rparr>)))) = []
   \<and> tick_now (unit_tick 0 40) = 40
   \<and> sent (snd (snd (heartbeat 0 (map (unit_tick 0) [0..<42])
        ((init 41250 0 :: string world)\<lparr> connected := True \<rparr>))))
       = [heartbeat_frame (PInt 0), status_frame ''Ping: -1ms'']
   \<and> tick_now (unit_tick 0 41) = 41"
proof -
  let ?wc = "(init 41250 0 :: string world)\<lparr> connected := True \<rparr>"
  have c: "connected ?wc" "heartbeat_interval ?wc = 41250" "sent ?wc = []"
    "sequence ?wc = PInt 0" "ping ?wc = - 1"
    by (simp_all add: init_def)
  have s1: "sent (snd (snd (heartbeat 0 (map (unit_tick 0) [0..<41]) ?wc))) = []"
    using heartbeat_unit_ticks(1)[OF c(1,2), of 0] c(3) by simp
  have s2: "sent (snd (snd (heartbeat 0 (map (unit_tick 0) [0..<42]) ?wc)))
       = [heartbeat_frame (PInt 0), status_frame ''Ping: -1ms'']"
    using heartbeat_unit_ticks(2)[OF c(1,2), of 0] by (simp only: c str_int_minus_one) simp
  have t: "tick_now (unit_tick 0 40) = 40" "tick_now (unit_tick 0 41) = 41"
    by (simp_all add: unit_tick_simps)
  show ?thesis using s1 s2 t by (intro conjI)
qed

subsection \<open>C7: a text that does not parse\<close>

text \<open>
  Claim C7, as amended. When \<open>_read_socket\<close> receives a text that does not parse, it
  logs nothing and does not return: the text stays in the buffer and the next text
  received is appended to it, which is also what happens to an incomplete frame (the
  two are not told apart). The read returns \<^verbatim>\<open>None\<close>, the buffer dropped, when the socket
  reports that nothing more is available; the consumer loop then goes on to its next
  iteration. A read never changes the stored sequence or latency, and changes nothing
  at all unless the transport is reset or closed; a reset or closed transport is a
  different path, which logs a warning and clears \<open>connected\<close>.
\<close>

theorem unparseable_text_stays_in_buffer:
  "(loads (data @ frag) = None \<and> data @ frag \<noteq> [] \<longrightarrow>
      read_socket loads (Recv frag # rest) data w = read_socket loads rest (data @ frag) w)
   \<and> (loads frag = None \<and> frag \<noteq> [] \<longrightarrow>
        read_socket loads [Recv frag, RecvSSLError 2] [] w = (Returned PNone, [], w)
        \<and> read_socket loads [Recv frag, RecvSocketError 11] [] w = (Returned PNone, [], w))
   \<and> (read_socket loads sock data w = (out, rest', w') \<longrightarrow>
        sequence w' = sequence w \<and> ping w' = ping w)
   \<and> (read_socket loads sock data w = (out, rest', w')
        \<and> RecvClosed \<notin> set sock \<and> RecvSocketError 104 \<notin> set sock \<longrightarrow> w' = w)
   \<and> (connected w \<longrightarrow>
        read_socket loads (RecvClosed # rest) data w =
          read_socket loads rest data
            (w\<lparr> logger := logger w @ [(''WARNING'', ''READ: Websocket unexpectedly closed.'')],
               connected := False \<rparr>))
   \<and> (connected w \<longrightarrow>
        read_socket loads (RecvSocketError 104 # rest) data w =
          (Returned PNone, rest,
           w\<lparr> logger := logger w @ [(''WARNING'', ''READ: Connection reset by peer.'')],
              connected := False \<rparr>))
   \<and> (connected w \<and> loads frag = None \<and> frag \<noteq> [] \<longrightarrow>
        message_consumer loads (Suc n) (Recv frag # RecvSSLError 2 # rest) w
          = message_consumer loads n rest w)"
proof -
  have p1: "loads (data @ frag) = None \<and> data @ frag \<noteq> [] \<longrightarrow>
      read_socket loads (Recv frag # rest) data w = read_socket loads rest (data @ frag) w"
    by simp
  have p2: "loads frag = None \<and> frag \<noteq> [] \<longrightarrow>
        read_socket loads [Recv frag, RecvSSLError 2] [] w = (Returned PNone, [], w)
        \<and> read_socket loads [Recv frag, RecvSocketError 11] [] w = (Returned PNone, [], w)"
    by simp
  have p3: "read_socket loads sock data w = (out, rest', w') \<longrightarrow>
        sequence w' = sequence w \<and> ping w' = ping w"
    using read_socket_state[of loads sock data w out rest' w'] by blast
  have p4: "read_socket loads sock data w = (out, rest', w')
        \<and> RecvClosed \<notin> set sock \<and> RecvSocketError 104 \<notin> set sock \<longrightarrow> w' = w"
    using read_socket_state[of loads sock data w out rest' w'] by blast
  have p5: "connected w \<longrightarrow>
        read_socket loads (RecvClosed # rest) data w =
          read_socket loads rest data
            (w\<lparr> logger := logger w @ [(''WARNING'', ''READ: Websocket unexpectedly closed.'')],
               connected := False \<rparr>)"
    by simp
  have p5b: "connected w \<longrightarrow>
        read_socket loads (RecvSocketError 104 # rest) data w =
          (Returned PNone, rest,
           w\<lparr> logger := logger w @ [(''WARNING'', ''READ: Connection reset by peer.'')],
              connected := False \<rparr>)"
    by simp
  have p6: "connected w \<and> loads frag = None \<and> frag \<noteq> [] \<longrightarrow>
        message_consumer loads (Suc n) (Recv frag # RecvSSLError 2 # rest) w
          = message_consumer loads n rest w"
    by (simp add: consumer_body_def)
  show ?thesis using p1 p2 p3 p4 p5 p5b p6 by blast
qed

theorem unparseable_text_stays_in_buffer_witness:
  "loads_example ([] @ bad_text) = None \<and> [] @ bad_text \<noteq> []
   \<and> connected ((init 41250 0 :: string world)\<lparr> connected := True \<rparr>)
   \<and> read_socket loads_example [Recv bad_text, RecvSSLError 2] []
         ((init 41250 0 :: string world)\<lparr> connected := True \<rparr>)
       = (Returned PNone, [], (init 41250 0)\<lparr> connected := True \<rparr>)
   \<and> RecvClosed \<notin> set [Recv bad_text, RecvSSLError 2]
   \<and> RecvSocketError 104 \<notin> set [Recv bad_text, RecvSSLError 2]
   \<and> message_consumer loads_example (Suc 0) [Recv bad_text, RecvSSLError 2]
         ((init 41250 0 :: string world)\<lparr> connected := True \<rparr>)
       = (Running, [], (init 41250 0)\<lparr> connected := True \<rparr>)"
proof -
  let ?wc = "(init 41250 0 :: string world)\<lparr> connected := True \<rparr>"
  have c: "connected ?wc" by simp
  note T = unparseable_text_stays_in_buffer[where loads = loads_example and data = "[]"
      and frag = bad_text and rest = "[]" and w = ?wc and sock = "[Recv bad_text, RecvSSLError 2]"
      and out = "Returned PNone" and rest' = "[]" and w' = ?wc and n = 0]
  have h: "loads_example bad_text = None \<and> bad_text \<noteq> []"
    by (simp add: loads_example_simps)
  have r: "read_socket loads_example [Recv bad_text, RecvSSLError 2] [] ?wc = (Returned PNone, [], ?wc)"
    using T[THEN conjunct2, THEN conjunct1] h by blast
  have m: "message_consumer loads_example (Suc 0) [Recv bad_text, RecvSSLError 2] ?wc
             = message_consumer loads_example 0 [] ?wc"
    using T[THEN conjunct2, THEN conjunct2, THEN conjunct2, THEN conjunct2, THEN conjunct2,
        THEN conjunct2] h c
    by blast
  have m0: "message_consumer loads_example 0 [] ?wc = (Running, [], ?wc)"
    by simp
  show ?thesis using h c r m m0 by simp
qed

text \<open>
  The claim as stated fails. The frame \<open>ack_text\<close> alone is returned by the read. When
  the unparseable \<open>bad_text\<close> comes first, the read does not return after it: it
  appends \<open>ack_text\<close> to it, the whole does not parse either, and when the socket has
  nothing more the read returns \<^verbatim>\<open>None\<close>, so the frame that followed is lost with the
  malformed one and is never queued; nothing is logged; and as long as the socket
  delivers nothing further the read is still in its loop.
\<close>

theorem malformed_frame_swallows_next_counterexample:
  "read_socket loads_example [Recv ack_text, RecvSSLError 2] []
       ((init 41250 0 :: string world)\<lparr> connected := True \<rparr>)
     = (Returned (PDict [(''op'', PInt 11)]), [RecvSSLError 2], (init 41250 0)\<lparr> connected := True \<rparr>)
   \<and> read_socket loads_example [Recv bad_text, Recv ack_text, RecvSSLError 2] []
       ((init 41250 0 :: string world)\<lparr> connected := True \<rparr>)
     = (Returned PNone, [], (init 41250 0)\<lparr> connected := True \<rparr>)
   \<and> read_socket loads_example [Recv bad_text, Recv ack_text] []
       ((init 41250 0 :: string world)\<lparr> connected := True \<rparr>)
     = (Pending, [], (init 41250 0)\<lparr> connected := True \<rparr>)
   \<and> logger ((init 41250 0 :: string world)\<lparr> connected := True \<rparr>) = []
   \<and> consumer_body loads_example [Recv bad_text, Recv ack_text, RecvSSLError 2]
       ((init 41250 0 :: string world)\<lparr> connected := True \<rparr>)
     = (Returned PNone, [], (init 41250 0)\<lparr> connected := True \<rparr>)"
  by (simp add: consumer_body_def loads_example_simps) (simp add: init_def)

subsection \<open>C10: what \<open>to_object\<close> keeps of the payload\<close>

text \<open>
  Claim C10, as amended. \<open>event.to_object\<close> returns every value that is neither a
  dictionary nor a list as it is. A list that it converts becomes the list of the
  conversions of its elements, of the same length and in the same order. A value none
  of whose dictionaries has a double-underscore key is converted without error, and a
  dictionary among these becomes a class with one entry per key, in the order of the
  keys, each bound to the conversion of the key's value: reading a name that is not a
  double-underscore name gives the converted value of the key of that name, and raises
  \<^verbatim>\<open>AttributeError\<close> when no key has that name (\<^verbatim>\<open>mro\<close>, which every class has, apart). A
  dictionary with the key \<^verbatim>\<open>__qualname__\<close> or the key \<^verbatim>\<open>__slots__\<close> bound to a number is
  not converted: \<^verbatim>\<open>type\<close> raises \<^verbatim>\<open>TypeError\<close>.
\<close>

theorem to_object_spec:
  "(\<not> is_dict v \<and> \<not> is_list v \<longrightarrow> to_object v = Inr v)
   \<and> (to_object (PList xs) = Inr r \<longrightarrow>
        (\<exists>ys. r = PList ys \<and> length ys = length xs
           \<and> (\<forall>i<length xs. to_object (xs ! i) = Inr (ys ! i))))
   \<and> (plain_keys v \<longrightarrow> (\<exists>r. to_object v = Inr r))
   \<and> (plain_keys (PDict kvs) \<longrightarrow>
        (\<exists>attrs. to_object (PDict kvs) = Inr (PObj attrs) \<and> map fst attrs = map fst kvs
           \<and> (\<forall>i<length kvs. to_object (snd (kvs ! i)) = Inr (snd (attrs ! i)))
           \<and> (\<forall>k. \<not> dunder k \<and> (k \<noteq> ''mro'' \<or> map_of kvs k \<noteq> None) \<longrightarrow>
                 getattr (PObj attrs) k =
                   (case map_of kvs k of None \<Rightarrow> Inl (AttributeError k)
                    | Some x \<Rightarrow> to_object x))))
   \<and> to_object (PDict [(''__qualname__'', PInt n)]) = Inl TypeError
   \<and> to_object (PDict [(''__slots__'', PInt n)]) = Inl TypeError"
proof -
  have p1: "\<not> is_dict v \<and> \<not> is_list v \<longrightarrow> to_object v = Inr v"
    by (simp add: to_object_not_container)
  have p2: "to_object (PList xs) = Inr r \<longrightarrow>
        (\<exists>ys. r = PList ys \<and> length ys = length xs
           \<and> (\<forall>i<length xs. to_object (xs ! i) = Inr (ys ! i)))"
    using to_object_list by blast
  have p3: "plain_keys v \<longrightarrow> (\<exists>r. to_object v = Inr r)"
    using convert_plain by (simp add: to_object_def)
  have p4: "plain_keys (PDict kvs) \<longrightarrow>
        (\<exists>attrs. to_object (PDict kvs) = Inr (PObj attrs) \<and> map fst attrs = map fst kvs
           \<and> (\<forall>i<length kvs. to_object (snd (kvs ! i)) = Inr (snd (attrs ! i)))
           \<and> (\<forall>k. \<not> dunder k \<and> (k \<noteq> ''mro'' \<or> map_of kvs k \<noteq> None) \<longrightarrow>
                 getattr (PObj attrs) k =
                   (case map_of kvs k of None \<Rightarrow> Inl (AttributeError k)
                    | Some x \<Rightarrow> to_object x)))"
  proof
    assume "plain_keys (PDict kvs)"
    from to_object_dict_plain[OF this] obtain attrs where
      a: "to_object (PDict kvs) = Inr (PObj attrs)" "map fst attrs = map fst kvs"
        "\<forall>i<length kvs. to_object (snd (kvs ! i)) = Inr (snd (attrs ! i))"
      by blast
    have "\<forall>k. \<not> dunder k \<and> (k \<noteq> ''mro'' \<or> map_of kvs k \<noteq> None) \<longrightarrow>
                 getattr (PObj attrs) k =
                   (case map_of kvs k of None \<Rightarrow> Inl (AttributeError k)
                    | Some x \<Rightarrow> to_object x)"
      using getattr_items[OF a(2,3)] by blast
    then show "\<exists>attrs. to_object (PDict kvs) = Inr (PObj attrs) \<and> map fst attrs = map fst kvs
           \<and> (\<forall>i<length kvs. to_object (snd (kvs ! i)) = Inr (snd (attrs ! i)))
           \<and> (\<forall>k. \<not> dunder k \<and> (k \<noteq> ''mro'' \<or> map_of kvs k \<noteq> None) \<longrightarrow>
                 getattr (PObj attrs) k =
                   (case map_of kvs k of None \<Rightarrow> Inl (AttributeError k)
                    | Some x \<Rightarrow> to_object x))"
      using a by blast
  qed
  show ?thesis using p1 p2 p3 p4 to_object_reserved_raises by blast
qed

theorem to_object_spec_witness:
  "\<not> is_dict (PInt 7) \<and> \<not> is_list (PInt 7) \<and> to_object (PInt 7) = Inr (PInt 7)
   \<and> to_object (PList [PInt 1, PDict [(''id'', PStr ''x'')]])
       = Inr (PList [PInt 1, PObj [(''id'', PStr ''x'')]])
   \<and> plain_keys (PDict [(''content'', PStr ''hi''), (''tts'', PBool False)])
   \<and> to_object (PDict [(''content'', PStr ''hi''), (''tts'', PBool False)])
       = Inr (PObj [(''content'', PStr ''hi''), (''tts'', PBool False)])
   \<and> \<not> dunder ''content''
   \<and> getattr (PObj [(''content'', PStr ''hi''), (''tts'', PBool False)]) ''content''
       = Inr (PStr ''hi'')
   \<and> getattr (PObj [(''content'', PStr ''hi''), (''tts'', PBool False)]) ''nonce''
       = Inl (AttributeError ''nonce'')"
proof -
  let ?kvs = "[(''content'', PStr ''hi''), (''tts'', PBool False)]"
  let ?xs = "[PInt 1, PDict [(''id'', PStr ''x'')]]"
  note T = to_object_spec[where v = "PInt 7" and xs = ?xs
      and r = "PList [PInt 1, PObj [(''id'', PStr ''x'')]]" and kvs = ?kvs and n = 1]
  have d: "\<not> dunder ''content''" "\<not> dunder ''tts''" "\<not> dunder ''id''" "\<not> dunder ''nonce''"
    by (simp_all add: dunder_def)
  have a: "to_object (PInt 7) = Inr (PInt 7)"
    using T[THEN conjunct1] by simp
  have b: "to_object (PList ?xs) = Inr (PList [PInt 1, PObj [(''id'', PStr ''x'')]])"
    by (simp add: to_object_def type_Event_def d)
  have p: "plain_keys (PDict ?kvs)" by (simp add: d)
  have c: "to_object (PDict ?kvs) = Inr (PObj ?kvs)"
    by (simp add: to_object_def type_Event_def d)
  from T[THEN conjunct2, THEN conjunct2, THEN conjunct2, THEN conjunct1] p c
  have g: "\<forall>k. \<not> dunder k \<and> (k \<noteq> ''mro'' \<or> map_of ?kvs k \<noteq> None) \<longrightarrow>
                 getattr (PObj ?kvs) k =
                   (case map_of ?kvs k of None \<Rightarrow> Inl (AttributeError k)
                    | Some x \<Rightarrow> to_object x)"
    by auto
  have g1: "getattr (PObj ?kvs) ''content'' = Inr (PStr ''hi'')"
    using g[rule_format, of "''content''"] d by (simp add: to_object_def)
  have g2: "getattr (PObj ?kvs) ''nonce'' = Inl (AttributeError ''nonce'')"
    using g[rule_format, of "''nonce''"] d by simp
  show ?thesis using a b p c d(1) g1 g2 by simp
qed

text \<open>
  The claim as stated fails: \<open>to_object\<close> makes no object of the dictionaries
  \<^verbatim>\<open>{"__qualname__": 1}\<close> and \<^verbatim>\<open>{"__slots__": 5}\<close>, it raises \<^verbatim>\<open>TypeError\<close>.
\<close>

theorem to_object_reserved_key_counterexample:
  "to_object (PDict [(''__qualname__'', PInt 1)]) = Inl TypeError
   \<and> to_object (PDict [(''__slots__'', PInt 5)]) = Inl TypeError"
  by (simp add: to_object_reserved_raises)

subsection \<open>C2: the stored sequence after a frame named \<open>CHANNEL_PINS_UPDATE\<close>\<close>

text \<open>
  Claim C2 does not hold of the code. The class \<open>events\<close> has the member
  \<open>CHANNEL_PINS_UPATE\<close> (line 380) and none of the name \<open>CHANNEL_PINS_UPDATE\<close> that the
  gateway sends. In a new session the Dispatch frame with sequence 5 is handled and the
  stored \<open>sequence\<close> is 5. The Dispatch frame
  \<^verbatim>\<open>{"op": 0, "s": 6, "t": "CHANNEL_PINS_UPDATE", "d": {"channel_id": "1"}}\<close> is handled next:
  \<open>from_message\<close> raises \<^verbatim>\<open>AttributeError\<close> at line 429, before the assignment of line 188.
  The stored \<open>sequence\<close> is still 5, not the 6 of the Dispatch frame processed last, and
  the heartbeat frame that the loop writes next carries 5.
\<close>

theorem sequence_stale_after_channel_pins_update:
  "getattr_events ''CHANNEL_PINS_UPDATE'' = Inl (AttributeError ''CHANNEL_PINS_UPDATE'')
   \<and> getattr_events ''CHANNEL_PINS_UPATE'' = Inr (PEnum CHANNEL_PINS_UPATE)
   \<and> sequence (run_handlers [(0, message_create_frame)] (init 41250 0 :: string world)) = PInt 5
   \<and> handle_gateway_message 1 channel_pins_update_frame
        (run_handlers [(0, message_create_frame)] (init 41250 0 :: string world))
       = Inl (AttributeError ''CHANNEL_PINS_UPDATE'')
   \<and> getitem channel_pins_update_frame ''s'' = Inr (PInt 6)
   \<and> sequence (run_handlers [(0, message_create_frame), (1, channel_pins_update_frame)]
        (init 41250 0 :: string world)) = PInt 5
   \<and> sent (snd (snd (heartbeat_body (165 / 4) (unit_tick 0 41) 0
        (run_handlers [(0, message_create_frame), (1, channel_pins_update_frame)]
           (init 41250 0 :: string world)))))
       = [heartbeat_frame (PInt 5), status_frame ''Ping: -1ms'']"
proof -
  let ?w5 = "(init 41250 0 :: string world)\<lparr> sequence := PInt 5, heap := [0 \<mapsto> []],
      next_addr := Suc 0 \<rparr>"
  have r1: "run_handlers [(0, message_create_frame)] (init 41250 0 :: string world) = ?w5"
    by (simp add: handle_message_create_init)
  have r2: "run_handlers [(0, message_create_frame), (1, channel_pins_update_frame)]
      (init 41250 0 :: string world) = ?w5"
    by (simp add: handle_message_create_init handle_channel_pins_update)
  have q: "sequence ?w5 = PInt 5" "sent ?w5 = []" "ping ?w5 = - 1"
    by (simp_all add: init_def)
  have d: "heartbeat_due (165 / 4) 0 (tick_now (unit_tick 0 41))"
    by (simp add: unit_tick_simps heartbeat_due_def)
  from heartbeat_body_due_ok[OF d unit_tick_simps(2), of ?w5] obtain r w4 where
    b: "heartbeat_body (165 / 4) (unit_tick 0 41) 0 ?w5 = (r, tick_after (unit_tick 0 41), w4)"
    and s: "sent w4 = sent ?w5 @ heartbeat_frame (sequence ?w5) #
             (if tick_status_send (unit_tick 0 41) = SendOk
              then [status_frame (''Ping: '' @ str_int (ping ?w5) @ ''ms'')] else [])"
    by blast
  have s': "sent w4 = [heartbeat_frame (PInt 5), status_frame ''Ping: -1ms'']"
    using s by (simp only: q unit_tick_simps str_int_minus_one) simp
  have g: "getitem channel_pins_update_frame ''s'' = Inr (PInt 6)"
    by (simp add: channel_pins_update_frame_def)
  show ?thesis
    unfolding r1 r2
    using getattr_events_pins handle_channel_pins_update[of 1 ?w5] q(1) g b s'
    by simp
qed

subsection \<open>C8: an invalid session ends the loops\<close>

text \<open>
  Claim C8, as amended. Handling a frame with opcode 9 clears \<open>connected\<close>, and it stays
  cleared whatever steps the threads of the session make afterwards (frames handled,
  tests and bodies of the heartbeat loop and of the consumer loop, in any order). The
  frames written after the opcode 9 frame was handled hold at most one heartbeat frame:
  an iteration of the heartbeat loop that had passed its test before the flag was
  cleared is not stopped, it may still write its heartbeat and the status frame; when
  the heartbeat loop was not inside an iteration nothing at all is written. Every later
  test of a loop fails: the heartbeat thread has ended after two more steps of its own,
  the consumer thread after two more steps of its own when its reads return, and
  \<open>disconnect\<close> then returns from both joins; it returns when both threads have
  ended and not before.
\<close>

theorem invalid_session_stops_the_loops:
  assumes "getitem gateway_message ''op'' = Inr (PInt 9)"
  shows
    "\<not> connected (world (step loads (Handle monotonic gateway_message) s))
     \<and> \<not> connected (world (run loads acts (step loads (Handle monotonic gateway_message) s)))
     \<and> (\<exists>new. sent (world (run loads acts (step loads (Handle monotonic gateway_message) s)))
                 = sent (world s) @ new
           \<and> length (heartbeat_frames new) \<le> 1
           \<and> (heartbeat_thread s \<noteq> InBody \<longrightarrow> new = []))
     \<and> (2 \<le> length (filter is_heartbeat_step acts) \<longrightarrow>
          finished (heartbeat_thread
            (run loads acts (step loads (Handle monotonic gateway_message) s))))
     \<and> (2 \<le> length (filter is_consumer_step acts)
          \<and> (\<forall>sock (w :: 'cb world). ConsumerStep sock \<in> set acts \<and> \<not> connected w
                \<longrightarrow> fst (read_socket loads sock [] w) \<noteq> Pending) \<longrightarrow>
          finished (message_consumer_thread
            (run loads acts (step loads (Handle monotonic gateway_message) (s :: 'cb session)))))
     \<and> (2 \<le> length (filter is_heartbeat_step acts) \<and> 2 \<le> length (filter is_consumer_step acts)
          \<and> (\<forall>sock (w :: 'cb world). ConsumerStep sock \<in> set acts \<and> \<not> connected w
                \<longrightarrow> fst (read_socket loads sock [] w) \<noteq> Pending) \<longrightarrow>
          disconnect loads acts (step loads (Handle monotonic gateway_message) s) \<noteq> None)
     \<and> (disconnect loads acts (step loads (Handle monotonic gateway_message) s) \<noteq> None
          \<longleftrightarrow> finished (heartbeat_thread
                (run loads acts (step loads (Handle monotonic gateway_message) s)))
              \<and> finished (message_consumer_thread
                (run loads acts (step loads (Handle monotonic gateway_message) s))))"
proof -
  let ?s1 = "step loads (Handle monotonic gateway_message) s"
  have e: "?s1 = s\<lparr> world := (world s)\<lparr> connected := False,
             logger := logger (world s) @
               [(''WARNING'', ''Connection terminated with Invalid Session ID'')] \<rparr> \<rparr>"
    by (rule step_invalid_session[OF assms])
  have c: "\<not> connected (world ?s1)" unfolding e by simp
  have t: "heartbeat_thread ?s1 = heartbeat_thread s" "sent (world ?s1) = sent (world s)"
    unfolding e by simp_all
  from run_disconnected[OF c, of loads acts] obtain new where
    c2: "\<not> connected (world (run loads acts ?s1))"
    and n: "sent (world (run loads acts ?s1)) = sent (world ?s1) @ new"
      "length (heartbeat_frames new) \<le> 1" "heartbeat_thread ?s1 \<noteq> InBody \<longrightarrow> new = []"
    by blast
  have p3: "\<exists>new. sent (world (run loads acts ?s1)) = sent (world s) @ new
           \<and> length (heartbeat_frames new) \<le> 1
           \<and> (heartbeat_thread s \<noteq> InBody \<longrightarrow> new = [])"
    using n t by auto
  have p4: "2 \<le> length (filter is_heartbeat_step acts) \<longrightarrow>
          finished (heartbeat_thread (run loads acts ?s1))"
    using run_heartbeat_finished[OF c] by blast
  have p5: "2 \<le> length (filter is_consumer_step acts)
          \<and> (\<forall>sock (w :: 'cb world). ConsumerStep sock \<in> set acts \<and> \<not> connected w
                \<longrightarrow> fst (read_socket loads sock [] w) \<noteq> Pending) \<longrightarrow>
          finished (message_consumer_thread (run loads acts ?s1))"
    using run_consumer_finished[OF c] by blast
  have p6: "2 \<le> length (filter is_heartbeat_step acts) \<and> 2 \<le> length (filter is_consumer_step acts)
          \<and> (\<forall>sock (w :: 'cb world). ConsumerStep sock \<in> set acts \<and> \<not> connected w
                \<longrightarrow> fst (read_socket loads sock [] w) \<noteq> Pending) \<longrightarrow>
          disconnect loads acts ?s1 \<noteq> None"
  proof (intro impI)
    assume a: "2 \<le> length (filter is_heartbeat_step acts) \<and> 2 \<le> length (filter is_consumer_step acts)
          \<and> (\<forall>sock (w :: 'cb world). ConsumerStep sock \<in> set acts \<and> \<not> connected w
                \<longrightarrow> fst (read_socket loads sock [] w) \<noteq> Pending)"
    from disconnect_returns[of acts loads ?s1] a
    obtain s2 where "disconnect loads acts ?s1 = Some s2" by blast
    then show "disconnect loads acts ?s1 \<noteq> None" by simp
  qed
  have idem: "?s1\<lparr> world := (world ?s1)\<lparr> connected := False \<rparr> \<rparr> = ?s1"
    unfolding e by simp
  have p7: "disconnect loads acts ?s1 \<noteq> None
          \<longleftrightarrow> finished (heartbeat_thread (run loads acts ?s1))
              \<and> finished (message_consumer_thread (run loads acts ?s1))"
    unfolding disconnect_def idem by (simp add: Let_def)
  show ?thesis using c c2 p3 p4 p5 p6 p7 by (intro conjI)
qed

theorem invalid_session_stops_the_loops_witness:
  "getitem (PDict [(''op'', PInt 9)]) ''op'' = Inr (PInt 9)
   \<and> connected (world (start_threads 0 (init 41250 0 :: string world)))
   \<and> \<not> connected (world (step loads_example (Handle 50 (PDict [(''op'', PInt 9)]))
          (start_threads 0 (init 41250 0 :: string world))))
   \<and> \<not> connected (world (run loads_example
          [HeartbeatStep (unit_tick 0 41), ConsumerStep [RecvSocketError 11],
           HeartbeatStep (unit_tick 0 42), ConsumerStep [RecvSSLError 2]]
          (step loads_example (Handle 50 (PDict [(''op'', PInt 9)]))
             (start_threads 0 (init 41250 0 :: string world)))))
   \<and> sent (world (run loads_example
          [HeartbeatStep (unit_tick 0 41), ConsumerStep [RecvSocketError 11],
           HeartbeatStep (unit_tick 0 42), ConsumerStep [RecvSSLError 2]]
          (step loads_example (Handle 50 (PDict [(''op'', PInt 9)]))
             (start_threads 0 (init 41250 0 :: string world))))) = []
   \<and> finished (heartbeat_thread (run loads_example
          [HeartbeatStep (unit_tick 0 41), ConsumerStep [RecvSocketError 11],
           HeartbeatStep (unit_tick 0 42), ConsumerStep [RecvSSLError 2]]
          (step loads_example (Handle 50 (PDict [(''op'', PInt 9)]))
             (start_threads 0 (init 41250 0 :: string world)))))
   \<and> finished (message_consumer_thread (run loads_example
          [HeartbeatStep (unit_tick 0 41), ConsumerStep [RecvSocketError 11],
           HeartbeatStep (unit_tick 0 42), ConsumerStep [RecvSSLError 2]]
          (step loads_example (Handle 50 (PDict [(''op'', PInt 9)]))
             (start_threads 0 (init 41250 0 :: string world)))))
   \<and> disconnect loads_example
          [HeartbeatStep (unit_tick 0 41), ConsumerStep [RecvSocketError 11],
           HeartbeatStep (unit_tick 0 42), ConsumerStep [RecvSSLError 2]]
          (step loads_example (Handle 50 (PDict [(''op'', PInt 9)]))
             (start_threads 0 (init 41250 0 :: string world))) \<noteq> None
   \<and> disconnect loads_example []
          (step loads_example (Handle 50 (PDict [(''op'', PInt 9)]))
             (start_threads 0 (init 41250 0 :: string world))) = None"
proof -
  let ?msg = "PDict [(''op'', PInt 9)]"
  let ?si = "start_threads 0 (init 41250 0 :: string world)"
  let ?acts = "[HeartbeatStep (unit_tick 0 41), ConsumerStep [RecvSocketError 11],
           HeartbeatStep (unit_tick 0 42), ConsumerStep [RecvSSLError 2]]"
  have h: "getitem ?msg ''op'' = Inr (PInt 9)" by simp
  have i: "connected (world ?si)" "heartbeat_thread ?si \<noteq> InBody" "sent (world ?si) = []"
    by (simp_all add: start_threads_def init_def)
  have k: "2 \<le> length (filter is_heartbeat_step ?acts)" "2 \<le> length (filter is_consumer_step ?acts)"
    by simp_all
  have r: "\<forall>sock (w :: string world). ConsumerStep sock \<in> set ?acts \<and> \<not> connected w
                \<longrightarrow> fst (read_socket loads_example sock [] w) \<noteq> Pending"
    by auto
  note t = invalid_session_stops_the_loops[OF h, of loads_example 50 ?si ?acts]
  from t i(2,3) have s: "sent (world (run loads_example ?acts
          (step loads_example (Handle 50 ?msg) ?si))) = []"
    by auto
  note t0 = invalid_session_stops_the_loops[OF h, of loads_example 50 ?si "[]"]
  have n: "\<not> finished (heartbeat_thread (run loads_example []
          (step loads_example (Handle 50 ?msg) ?si)))"
    unfolding run_Nil step_invalid_session[OF h] by (simp add: start_threads_def)
  from t0 n have z: "disconnect loads_example [] (step loads_example (Handle 50 ?msg) ?si) = None"
    by blast
  show ?thesis using h i(1) t k r s z by (intro conjI) blast+
qed

text \<open>
  The claim as stated fails. The heartbeat thread passes the test of its loop while the
  session is connected; the opcode 9 frame is handled and clears \<open>connected\<close>, nothing
  having been written so far; the iteration that was under way, due at time 41, then
  writes a heartbeat frame and the status frame, after the session has left the
  connected state.
\<close>

theorem heartbeat_written_after_invalid_session_counterexample:
  "connected (world (start_threads 0 (init 41250 0 :: string world)))
   \<and> getitem (PDict [(''op'', PInt 9)]) ''op'' = Inr (PInt 9)
   \<and> \<not> connected (world (run loads_example
          [HeartbeatStep (unit_tick 0 41), Handle 50 (PDict [(''op'', PInt 9)])]
          (start_threads 0 (init 41250 0 :: string world))))
   \<and> sent (world (run loads_example
          [HeartbeatStep (unit_tick 0 41), Handle 50 (PDict [(''op'', PInt 9)])]
          (start_threads 0 (init 41250 0 :: string world)))) = []
   \<and> sent (world (run loads_example
          [HeartbeatStep (unit_tick 0 41), Handle 50 (PDict [(''op'', PInt 9)]),
           HeartbeatStep (unit_tick 0 41)]
          (start_threads 0 (init 41250 0 :: string world))))
       = [heartbeat_frame (PInt 0), status_frame ''Ping: -1ms'']"
proof -
  define msg where "msg = PDict [(''op'', PInt 9)]"
  define si where "si = start_threads 0 (init 41250 0 :: string world)"
  define tk where "tk = unit_tick 0 41"
  define sa where "sa = step loads_example (HeartbeatStep tk) si"
  define sb where "sb = step loads_example (Handle 50 msg) sa"
  define sc where "sc = step loads_example (HeartbeatStep tk) sb"
  have h: "getitem msg ''op'' = Inr (PInt 9)" by (simp add: msg_def)
  have i: "connected (world si)" by (simp add: si_def start_threads_def init_def)
  have a: "sa = si\<lparr> heartbeat_thread := InBody \<rparr>"
    by (simp add: sa_def si_def start_threads_def init_def)
  have b: "\<not> connected (world sb)" "sent (world sb) = []" "heartbeat_thread sb = InBody"
    "interval_s sb = 41250 / 1000" "last_heartbeat sb = 0" "sequence (world sb) = PInt 0"
    "ping (world sb) = - 1"
    unfolding sb_def step_invalid_session[OF h] a
    by (simp_all add: si_def start_threads_def init_def)
  have d: "heartbeat_due (interval_s sb) (last_heartbeat sb) (tick_now tk)"
    unfolding b by (simp add: heartbeat_due_def unit_tick_simps tk_def)
  have u: "tick_send tk = SendOk" "tick_status_send tk = SendOk"
    by (simp_all add: unit_tick_simps tk_def)
  have c: "sent (world sc) = [heartbeat_frame (PInt 0), status_frame ''Ping: -1ms'']"
    unfolding sc_def step_heartbeat_in_body_sent[OF b(3) d u, of loads_example]
    by (simp add: b str_int_minus_one)
  have r2: "run loads_example [HeartbeatStep tk, Handle 50 msg] si = sb"
    by (simp only: run_Cons run_Nil sa_def sb_def)
  have r3: "run loads_example [HeartbeatStep tk, Handle 50 msg, HeartbeatStep tk] si = sc"
    by (simp only: run_Cons run_Nil sa_def sb_def sc_def)
  have "connected (world si) \<and> getitem msg ''op'' = Inr (PInt 9)
    \<and> \<not> connected (world (run loads_example [HeartbeatStep tk, Handle 50 msg] si))
    \<and> sent (world (run loads_example [HeartbeatStep tk, Handle 50 msg] si)) = []
    \<and> sent (world (run loads_example [HeartbeatStep tk, Handle 50 msg, HeartbeatStep tk] si))
         = [heartbeat_frame (PInt 0), status_frame ''Ping: -1ms'']"
    unfolding r2 r3 using h i b(1,2) c by (intro conjI)
  then show ?thesis unfolding msg_def si_def tk_def .
qed

end
